theory Spec2Isabelle
  imports Main "HOL-Library.List_Lexorder"
begin

section \<open>Text\<close>

text \<open>
  A Python \<open>str\<close> is a sequence of Unicode code points, and \<open>len\<close>, indexing, \<open>re\<close>
  and the comparison used by \<open>sorted\<close> all work on code points. A line is therefore a list
  of code points (natural numbers); \<open>lit\<close> turns an ASCII literal into such a list. The
  order on lists is the lexicographic one of \<open>HOL-Library.List_Lexorder\<close>, which is the
  order Python uses to compare two \<open>str\<close> values.
\<close>

type_synonym pystr = "nat list"

definition lit :: "string \<Rightarrow> pystr" where
  "lit s = map of_char s"

text \<open>
  \<open>str.isspace\<close> for a single code point, which is also what \<open>\s\<close> matches in a \<open>str\<close>
  pattern and what \<open>str.strip()\<close> removes: the ASCII whitespace characters (tab to carriage
  return, the four separators, space) and the Unicode ones (NEL, no-break space, Ogham space
  mark, en quad to hair space, line and paragraph separator, narrow no-break space, medium
  mathematical space, ideographic space).
\<close>

definition isspace :: "nat \<Rightarrow> bool" where
  "isspace c = ((9 \<le> c \<and> c \<le> 13) \<or> (28 \<le> c \<and> c \<le> 32) \<or> c = 133 \<or> c = 160
     \<or> c = 5760 \<or> (8192 \<le> c \<and> c \<le> 8202) \<or> c = 8232 \<or> c = 8233 \<or> c = 8239
     \<or> c = 8287 \<or> c = 12288)"

text \<open>
  \<open>\w\<close> in a \<open>str\<close> pattern matches an alphanumeric code point or the underscore. On ASCII
  the alphanumeric code points are the digits and the letters. Beyond ASCII the answer comes
  from the Unicode database of the Python runtime, which is not part of this repository: it
  is taken as the parameter \<open>uni_alnum\<close>, consulted only for code points from 128 on.
\<close>

definition is_word :: "(nat \<Rightarrow> bool) \<Rightarrow> nat \<Rightarrow> bool" where
  "is_word uni_alnum c =
     (if c < 128
      then (48 \<le> c \<and> c \<le> 57) \<or> (65 \<le> c \<and> c \<le> 90) \<or> (97 \<le> c \<and> c \<le> 122) \<or> c = 95
      else uni_alnum c)"

text \<open>The dot of a pattern compiled without \<open>re.DOTALL\<close>: any code point but the newline.\<close>

definition dot :: "nat \<Rightarrow> bool" where
  "dot c = (c \<noteq> 10)"

text \<open>\<open>s.strip()\<close>: whitespace removed at both ends.\<close>

definition strip :: "pystr \<Rightarrow> pystr" where
  "strip s = rev (dropWhile isspace (rev (dropWhile isspace s)))"

text \<open>\<open>s.startswith(p)\<close> and \<open>sub in s\<close>.\<close>

fun startswith :: "pystr \<Rightarrow> pystr \<Rightarrow> bool" where
  "startswith s [] = True"
| "startswith [] (p # ps) = False"
| "startswith (x # xs) (p # ps) = (x = p \<and> startswith xs ps)"

fun contains :: "pystr \<Rightarrow> pystr \<Rightarrow> bool" where
  "contains sub [] = (sub = [])"
| "contains sub (x # xs) = (startswith (x # xs) sub \<or> contains sub xs)"

section \<open>Regular expressions as the \<open>re\<close> module runs them\<close>

text \<open>
  The patterns of the program are built from the following forms. Repetition is applied in
  them to single-character classes only (\<open>.*?\<close>, \<open>\s*\<close>, \<open>.*\<close>, \<open>[\w-]+\<close>), and there is one
  capturing group.
\<close>

datatype rx =
    Lit pystr                   \<comment> \<open>a literal text\<close>
  | Seq rx rx                   \<comment> \<open>one pattern after another\<close>
  | Alt rx rx                   \<comment> \<open>\<open>a|b\<close>, the left alternative tried first\<close>
  | Opt rx                      \<comment> \<open>\<open>(?:a)?\<close>, greedy\<close>
  | Star "nat \<Rightarrow> bool"         \<comment> \<open>\<open>c*\<close>, greedy\<close>
  | Star_lazy "nat \<Rightarrow> bool"    \<comment> \<open>\<open>c*?\<close>\<close>
  | Plus "nat \<Rightarrow> bool"         \<comment> \<open>\<open>c+\<close>, greedy\<close>
  | Group rx                    \<comment> \<open>\<open>(a)\<close>, capturing group 1\<close>
  | Eol                         \<comment> \<open>\<open>$\<close> without \<open>re.MULTILINE\<close>\<close>

text \<open>
  The matcher is a backtracking one, as \<open>re\<close> is: each form is given the rest of the input,
  the text captured by group 1 so far and a continuation that stands for the rest of the
  pattern; it returns the first success in the order in which \<open>re\<close> tries the choices, and
  \<open>None\<close> when every choice fails.

  A greedy repetition takes a character when it can and gives it back only when the rest
  of the pattern fails; a lazy one asks the rest of the pattern first.
\<close>

fun star_greedy :: "(nat \<Rightarrow> bool) \<Rightarrow> pystr \<Rightarrow> (pystr \<Rightarrow> 'r option) \<Rightarrow> 'r option" where
  "star_greedy p [] k = k []"
| "star_greedy p (x # xs) k =
     (if p x
      then (case star_greedy p xs k of Some r \<Rightarrow> Some r | None \<Rightarrow> k (x # xs))
      else k (x # xs))"

fun star_lazy :: "(nat \<Rightarrow> bool) \<Rightarrow> pystr \<Rightarrow> (pystr \<Rightarrow> 'r option) \<Rightarrow> 'r option" where
  "star_lazy p [] k = k []"
| "star_lazy p (x # xs) k =
     (case k (x # xs) of
        Some r \<Rightarrow> Some r
      | None \<Rightarrow> if p x then star_lazy p xs k else None)"

fun rx_match ::
  "rx \<Rightarrow> pystr \<Rightarrow> pystr option \<Rightarrow> (pystr \<Rightarrow> pystr option \<Rightarrow> 'r option) \<Rightarrow> 'r option" where
  "rx_match (Lit l) s g k =
     (if startswith s l then k (drop (length l) s) g else None)"
| "rx_match (Seq a b) s g k = rx_match a s g (\<lambda>s' g'. rx_match b s' g' k)"
| "rx_match (Alt a b) s g k =
     (case rx_match a s g k of Some r \<Rightarrow> Some r | None \<Rightarrow> rx_match b s g k)"
| "rx_match (Opt a) s g k =
     (case rx_match a s g k of Some r \<Rightarrow> Some r | None \<Rightarrow> k s g)"
| "rx_match (Star p) s g k = star_greedy p s (\<lambda>s'. k s' g)"
| "rx_match (Star_lazy p) s g k = star_lazy p s (\<lambda>s'. k s' g)"
| "rx_match (Plus p) s g k =
     (case s of
        [] \<Rightarrow> None
      | x # xs \<Rightarrow> if p x then star_greedy p xs (\<lambda>s'. k s' g) else None)"
| "rx_match (Group a) s g k =
     rx_match a s g (\<lambda>s' g'. k s' (Some (take (length s - length s') s)))"
| "rx_match Eol s g k = (if s = [] \<or> s = [10] then k s g else None)"

text \<open>
  A match object: \<open>group(0)\<close> is the text matched by the whole pattern; \<open>group(1)\<close> is the
  text of the capturing group, or Python's \<open>None\<close> when the group took no part in the match.
\<close>

record rx_found =
  group0 :: pystr
  group1 :: "pystr option"

text \<open>
  \<open>pattern.search(s)\<close>: the match that starts at the leftmost position where the pattern
  matches at all, every start position from 0 to \<open>len(s)\<close> being tried in turn.
\<close>

fun search :: "rx \<Rightarrow> pystr \<Rightarrow> rx_found option" where
  "search r [] =
     rx_match r [] None (\<lambda>s' g. Some \<lparr>group0 = [], group1 = g\<rparr>)"
| "search r (x # xs) =
     (case rx_match r (x # xs) None
             (\<lambda>s' g. Some \<lparr>group0 = take (length (x # xs) - length s') (x # xs), group1 = g\<rparr>) of
        Some m \<Rightarrow> Some m
      | None \<Rightarrow> search r xs)"

section \<open>The failure classifier of the terminal front-end\<close>

text \<open>
  \<^verbatim>\<open>r".*?(?:Could not find a match for:|Failed to download|Track found but download failed):\s*(.*?)(?::.*)?$"\<close>
\<close>

definition explicit_failure_pattern :: rx where
  "explicit_failure_pattern =
     Seq (Star_lazy dot)
    (Seq (Alt (Lit (lit ''Could not find a match for:''))
         (Alt (Lit (lit ''Failed to download''))
              (Lit (lit ''Track found but download failed''))))
    (Seq (Lit (lit '':''))
    (Seq (Star isspace)
    (Seq (Group (Star_lazy dot))
    (Seq (Opt (Seq (Lit (lit '':'')) (Star dot)))
         Eol)))))"

text \<open>
  \<^verbatim>\<open>r"https?://(?:www\.)?(?:music\.)?youtube\.com/watch\?v=[\w-]+"\<close>
\<close>

definition youtube_url_pattern :: "(nat \<Rightarrow> bool) \<Rightarrow> rx" where
  "youtube_url_pattern uni_alnum =
     Seq (Lit (lit ''http''))
    (Seq (Opt (Lit (lit ''s'')))
    (Seq (Lit (lit ''://''))
    (Seq (Opt (Lit (lit ''www.'')))
    (Seq (Opt (Lit (lit ''music.'')))
    (Seq (Lit (lit ''youtube.com/watch?v=''))
         (Plus (\<lambda>c. is_word uni_alnum c \<or> c = 45)))))))"

text \<open>What the program can raise: an index out of range, a method called on \<open>None\<close>.\<close>

datatype py_error = IndexError | AttributeError

text \<open>\<open>xs[i]\<close> for an index that is not negative.\<close>

definition index :: "'a list \<Rightarrow> nat \<Rightarrow> py_error + 'a" where
  "index xs i = (if i < length xs then Inr (xs ! i) else Inl IndexError)"

text \<open>The two f-strings.\<close>

definition url_record :: "pystr \<Rightarrow> pystr" where
  "url_record yt_url =
     lit ''Download failed for YouTube URL: '' @ yt_url @ lit '' (AudioProviderError)''"

definition generic_record :: "pystr \<Rightarrow> pystr" where
  "generic_record line =
     lit ''Download failed due to AudioProviderError (details in log: '' @ [39] @ line
       @ [39] @ lit '')''"

text \<open>
  The inner loop \<open>for j in range(i, min(i + 4, len(output_lines)))\<close>, from \<open>j\<close> up to the
  bound \<open>hi\<close>: it leaves \<open>yt_url\<close> at \<open>None\<close> or sets it to the first match and breaks.
\<close>

function url_scan ::
  "(nat \<Rightarrow> bool) \<Rightarrow> pystr list \<Rightarrow> nat \<Rightarrow> nat \<Rightarrow> py_error + pystr option" where
  "url_scan uni_alnum output_lines j hi =
     (if j < hi
      then (case index output_lines j of
              Inl e \<Rightarrow> Inl e
            | Inr l \<Rightarrow>
                (case search (youtube_url_pattern uni_alnum) l of
                   Some url_match \<Rightarrow> Inr (Some (group0 url_match))
                 | None \<Rightarrow> url_scan uni_alnum output_lines (j + 1) hi))
      else Inr None)"
  by pat_completeness auto
termination
  by (relation "measure (\<lambda>(w, ls, j, hi). hi - j)") auto

text \<open>
  The \<open>while i < len(output_lines)\<close> loop, with the cursor \<open>i\<close> and the set \<open>failed_songs\<close>
  as its state. \<open>if song_info:\<close> and \<open>if yt_url:\<close> test that a text is not empty (and, for
  \<open>yt_url\<close>, not \<open>None\<close>).
\<close>

function scan_lines ::
  "(nat \<Rightarrow> bool) \<Rightarrow> pystr list \<Rightarrow> nat \<Rightarrow> pystr set \<Rightarrow> py_error + pystr set" where
  "scan_lines uni_alnum output_lines i failed_songs =
     (if i < length output_lines
      then (case index output_lines i of
              Inl e \<Rightarrow> Inl e
            | Inr line \<Rightarrow>
                (case search explicit_failure_pattern line of
                   Some explicit_match \<Rightarrow>
                     (case group1 explicit_match of
                        None \<Rightarrow> Inl AttributeError
                      | Some g \<Rightarrow>
                          scan_lines uni_alnum output_lines (i + 1)
                            (if strip g \<noteq> [] then insert (strip g) failed_songs
                             else failed_songs))
                 | None \<Rightarrow>
                     if contains (lit ''AudioProviderError:'') line
                     then (case url_scan uni_alnum output_lines i
                                  (min (i + 4) (length output_lines)) of
                             Inl e \<Rightarrow> Inl e
                           | Inr yt_url \<Rightarrow>
                               scan_lines uni_alnum output_lines (i + 1)
                                 (insert
                                    (case yt_url of
                                       Some url \<Rightarrow>
                                         if url \<noteq> [] then url_record url
                                         else generic_record line
                                     | None \<Rightarrow> generic_record line)
                                    failed_songs))
                     else scan_lines uni_alnum output_lines (i + 1) failed_songs))
      else Inr failed_songs)"
  by pat_completeness auto
termination
  by (relation "measure (\<lambda>(w, ls, i, acc). length ls - i)") auto

text \<open>\<open>parse_failed_downloads\<close>: the scan from an empty set, then \<open>sorted(list(failed_songs))\<close>.\<close>

definition parse_failed_downloads :: "(nat \<Rightarrow> bool) \<Rightarrow> pystr list \<Rightarrow> py_error + pystr list" where
  "parse_failed_downloads uni_alnum output_lines =
     (case scan_lines uni_alnum output_lines 0 {} of
        Inl e \<Rightarrow> Inl e
      | Inr failed_songs \<Rightarrow> Inr (sorted_list_of_set failed_songs))"

section \<open>The copy of the classifier in the GUI front-end\<close>

text \<open>
  \<open>SpotdlGuiApp._parse_failed_downloads\<close> of \<open>spotdl_gui/app.py\<close>, translated on its own
  from that file: its two patterns, its inner \<open>for\<close> loop, its \<open>while\<close> loop. It does not
  read \<open>self\<close>.
\<close>

definition gui_explicit_failure_pattern :: rx where
  "gui_explicit_failure_pattern =
     Seq (Star_lazy dot)
    (Seq (Alt (Lit (lit ''Could not find a match for:''))
         (Alt (Lit (lit ''Failed to download''))
              (Lit (lit ''Track found but download failed''))))
    (Seq (Lit (lit '':''))
    (Seq (Star isspace)
    (Seq (Group (Star_lazy dot))
    (Seq (Opt (Seq (Lit (lit '':'')) (Star dot)))
         Eol)))))"

definition gui_youtube_url_pattern :: "(nat \<Rightarrow> bool) \<Rightarrow> rx" where
  "gui_youtube_url_pattern uni_alnum =
     Seq (Lit (lit ''http''))
    (Seq (Opt (Lit (lit ''s'')))
    (Seq (Lit (lit ''://''))
    (Seq (Opt (Lit (lit ''www.'')))
    (Seq (Opt (Lit (lit ''music.'')))
    (Seq (Lit (lit ''youtube.com/watch?v=''))
         (Plus (\<lambda>c. is_word uni_alnum c \<or> c = 45)))))))"

function gui_url_scan ::
  "(nat \<Rightarrow> bool) \<Rightarrow> pystr list \<Rightarrow> nat \<Rightarrow> nat \<Rightarrow> py_error + pystr option" where
  "gui_url_scan uni_alnum output_lines j hi =
     (if j < hi
      then (case index output_lines j of
              Inl e \<Rightarrow> Inl e
            | Inr l \<Rightarrow>
                (case search (gui_youtube_url_pattern uni_alnum) l of
                   Some url_match \<Rightarrow> Inr (Some (group0 url_match))
                 | None \<Rightarrow> gui_url_scan uni_alnum output_lines (j + 1) hi))
      else Inr None)"
  by pat_completeness auto
termination
  by (relation "measure (\<lambda>(w, ls, j, hi). hi - j)") auto

function gui_scan_lines ::
  "(nat \<Rightarrow> bool) \<Rightarrow> pystr list \<Rightarrow> nat \<Rightarrow> pystr set \<Rightarrow> py_error + pystr set" where
  "gui_scan_lines uni_alnum output_lines i failed_songs =
     (if i < length output_lines
      then (case index output_lines i of
              Inl e \<Rightarrow> Inl e
            | Inr line \<Rightarrow>
                (case search gui_explicit_failure_pattern line of
                   Some explicit_match \<Rightarrow>
                     (case group1 explicit_match of
                        None \<Rightarrow> Inl AttributeError
                      | Some g \<Rightarrow>
                          gui_scan_lines uni_alnum output_lines (i + 1)
                            (if strip g \<noteq> [] then insert (strip g) failed_songs
                             else failed_songs))
                 | None \<Rightarrow>
                     if contains (lit ''AudioProviderError:'') line
                     then (case gui_url_scan uni_alnum output_lines i
                                  (min (i + 4) (length output_lines)) of
                             Inl e \<Rightarrow> Inl e
                           | Inr yt_url \<Rightarrow>
                               gui_scan_lines uni_alnum output_lines (i + 1)
                                 (insert
                                    (case yt_url of
                                       Some url \<Rightarrow>
                                         if url \<noteq> [] then url_record url
                                         else generic_record line
                                     | None \<Rightarrow> generic_record line)
                                    failed_songs))
                     else gui_scan_lines uni_alnum output_lines (i + 1) failed_songs))
      else Inr failed_songs)"
  by pat_completeness auto
termination
  by (relation "measure (\<lambda>(w, ls, i, acc). length ls - i)") auto

definition gui_parse_failed_downloads ::
  "(nat \<Rightarrow> bool) \<Rightarrow> pystr list \<Rightarrow> py_error + pystr list" where
  "gui_parse_failed_downloads uni_alnum output_lines =
     (case gui_scan_lines uni_alnum output_lines 0 {} of
        Inl e \<Rightarrow> Inl e
      | Inr failed_songs \<Rightarrow> Inr (sorted_list_of_set failed_songs))"

section \<open>Auxiliary notions for the proofs\<close>

text \<open>Whether a pattern contains the capturing group.\<close>

fun has_group :: "rx \<Rightarrow> bool" where
  "has_group (Lit l) = False"
| "has_group (Seq a b) = (has_group a \<or> has_group b)"
| "has_group (Alt a b) = (has_group a \<or> has_group b)"
| "has_group (Opt a) = has_group a"
| "has_group (Star p) = False"
| "has_group (Star_lazy p) = False"
| "has_group (Plus p) = False"
| "has_group (Group a) = True"
| "has_group Eol = False"

text \<open>
  Whether one of the three marker phrases, with the colon the pattern asks for after it,
  stands at the start of a text; and whether it stands anywhere in a text.
\<close>

definition marker_at :: "pystr \<Rightarrow> bool" where
  "marker_at s =
     (startswith s (lit ''Could not find a match for::'')
      \<or> startswith s (lit ''Failed to download:'')
      \<or> startswith s (lit ''Track found but download failed:''))"

fun has_marker :: "pystr \<Rightarrow> bool" where
  "has_marker [] = False"
| "has_marker (x # xs) = (marker_at (x # xs) \<or> has_marker xs)"

text \<open>The first URL in a list of lines, read from the front.\<close>

fun first_url :: "(nat \<Rightarrow> bool) \<Rightarrow> pystr list \<Rightarrow> pystr option" where
  "first_url uni_alnum [] = None"
| "first_url uni_alnum (l # ls) =
     (case search (youtube_url_pattern uni_alnum) l of
        Some url_match \<Rightarrow> Some (group0 url_match)
      | None \<Rightarrow> first_url uni_alnum ls)"

text \<open>The record, if any, that the iteration of the \<open>while\<close> loop at cursor \<open>i\<close> adds.\<close>

definition line_record :: "(nat \<Rightarrow> bool) \<Rightarrow> pystr list \<Rightarrow> nat \<Rightarrow> pystr option" where
  "line_record uni_alnum ls i =
     (case search explicit_failure_pattern (ls ! i) of
        Some m \<Rightarrow> (if strip (the (group1 m)) \<noteq> [] then Some (strip (the (group1 m))) else None)
      | None \<Rightarrow>
          if contains (lit ''AudioProviderError:'') (ls ! i)
          then (case first_url uni_alnum (take 4 (drop i ls)) of
                  Some url \<Rightarrow> Some (if url \<noteq> [] then url_record url else generic_record (ls ! i))
                | None \<Rightarrow> Some (generic_record (ls ! i)))
          else None)"

definition all_records :: "(nat \<Rightarrow> bool) \<Rightarrow> pystr list \<Rightarrow> pystr set" where
  "all_records uni_alnum ls = (\<Union>j\<in>{0..<length ls}. set_option (line_record uni_alnum ls j))"

text \<open>
  A table for the closed examples below: no code point beyond ASCII counts as alphanumeric.
  The examples are ASCII texts, on which the table is never consulted; the theorems
  themselves hold for every table.
\<close>

definition ascii_alnum_only :: "nat \<Rightarrow> bool" where
  "ascii_alnum_only c = False"

section \<open>The matcher hands its result over from the continuation\<close>

declare scan_lines.simps [simp del] url_scan.simps [simp del]
declare gui_scan_lines.simps [simp del] gui_url_scan.simps [simp del]

lemma star_greedy_from_cont:
  "star_greedy p s k = Some r \<Longrightarrow> \<exists>s'. k s' = Some r \<and> length s' \<le> length s"
proof (induction s)
  case Nil
  then show ?case by auto
next
  case (Cons x xs)
  show ?case
  proof (cases "p x \<and> star_greedy p xs k = Some r")
    case True
    with Cons.IH obtain s' where "k s' = Some r" "length s' \<le> length xs" by blast
    then show ?thesis by (intro exI[of _ s']) simp
  next
    case False
    with Cons.prems have "k (x # xs) = Some r" by (auto split: if_splits option.splits)
    then show ?thesis by blast
  qed
qed

lemma star_lazy_from_cont:
  "star_lazy p s k = Some r \<Longrightarrow> \<exists>s'. k s' = Some r \<and> length s' \<le> length s"
proof (induction s)
  case Nil
  then show ?case by auto
next
  case (Cons x xs)
  show ?case
  proof (cases "k (x # xs)")
    case None
    with Cons.prems have "star_lazy p xs k = Some r" by (auto split: if_splits)
    with Cons.IH obtain s' where "k s' = Some r" "length s' \<le> length xs" by blast
    then show ?thesis by (intro exI[of _ s']) simp
  next
    case (Some r')
    with Cons.prems have "k (x # xs) = Some r" by simp
    then show ?thesis by blast
  qed
qed

lemma startswith_length: "startswith s p \<Longrightarrow> length p \<le> length s"
  by (induction s p rule: startswith.induct) auto

lemma rx_match_from_cont:
  "rx_match r s g k = Some res \<Longrightarrow> \<exists>s' g'. k s' g' = Some res \<and> length s' \<le> length s"
proof (induction r arbitrary: s g k)
  case (Lit l)
  then have "k (drop (length l) s) g = Some res" by (auto split: if_splits)
  then show ?case by (intro exI[of _ "drop (length l) s"] exI[of _ g]) simp
next
  case (Seq a b)
  from Seq.prems have "rx_match a s g (\<lambda>s' g'. rx_match b s' g' k) = Some res" by simp
  from Seq.IH(1)[OF this] obtain s1 g1 where
    1: "rx_match b s1 g1 k = Some res" "length s1 \<le> length s" by blast
  from Seq.IH(2)[OF 1(1)] obtain s2 g2 where
    "k s2 g2 = Some res" "length s2 \<le> length s1" by blast
  with 1(2) show ?case by (intro exI[of _ s2] exI[of _ g2]) simp
next
  case (Alt a b)
  then show ?case by (auto split: option.splits)
next
  case (Opt a)
  then show ?case by (auto split: option.splits)
next
  case (Star p)
  then show ?case using star_greedy_from_cont[of p s "\<lambda>s'. k s' g" res] by auto
next
  case (Star_lazy p)
  then show ?case using star_lazy_from_cont[of p s "\<lambda>s'. k s' g" res] by auto
next
  case (Plus p)
  show ?case
  proof (cases s)
    case Nil
    with Plus show ?thesis by simp
  next
    case (Cons x xs)
    with Plus have "star_greedy p xs (\<lambda>s'. k s' g) = Some res" by (auto split: if_splits)
    from star_greedy_from_cont[OF this] Cons show ?thesis by auto
  qed
next
  case (Group a)
  from Group.prems
  have "rx_match a s g (\<lambda>s' g'. k s' (Some (take (length s - length s') s))) = Some res"
    by simp
  from Group.IH[OF this] show ?case by blast
next
  case Eol
  then show ?case by (auto split: if_splits)
qed

lemma rx_match_keeps_group:
  "\<not> has_group r \<Longrightarrow> rx_match r s g k = Some res \<Longrightarrow> \<exists>s'. k s' g = Some res"
proof (induction r arbitrary: s g k)
  case (Seq a b)
  from Seq.prems have m: "rx_match a s g (\<lambda>s' g'. rx_match b s' g' k) = Some res"
    and na: "\<not> has_group a" and nb: "\<not> has_group b" by simp_all
  from Seq.IH(1)[OF na m] obtain s1 where "rx_match b s1 g k = Some res" by blast
  from Seq.IH(2)[OF nb this] show ?case .
next
  case (Alt a b)
  then show ?case by (auto split: option.splits)
next
  case (Opt a)
  then show ?case by (auto split: option.splits)
next
  case (Star p)
  then show ?case using star_greedy_from_cont[of p s "\<lambda>s'. k s' g" res] by auto
next
  case (Star_lazy p)
  then show ?case using star_lazy_from_cont[of p s "\<lambda>s'. k s' g" res] by auto
next
  case (Plus p)
  then show ?case using star_greedy_from_cont[of p "tl s" "\<lambda>s'. k s' g" res]
    by (auto split: list.splits if_splits)
qed (auto split: if_splits)

lemma rx_match_Seq_tail:
  "rx_match (Seq a b) s g k = Some res \<Longrightarrow> \<exists>s' g'. rx_match b s' g' k = Some res"
  using rx_match_from_cont[of a s g "\<lambda>s' g'. rx_match b s' g' k" res] by auto

lemma rx_match_Seq_Group:
  assumes "rx_match (Seq (Group a) b) s g k = Some res" and "\<not> has_group b"
  shows "\<exists>s' c. k s' (Some c) = Some res"
proof -
  from assms(1)
  have "rx_match a s g (\<lambda>s' g'. rx_match b s' (Some (take (length s - length s') s)) k) = Some res"
    by simp
  from rx_match_from_cont[OF this] obtain s1 where
    "rx_match b s1 (Some (take (length s - length s1) s)) k = Some res" by blast
  from rx_match_keeps_group[OF assms(2) this] show ?thesis by blast
qed

lemma search_from_match:
  "search r l = Some m \<Longrightarrow>
     \<exists>s. rx_match r s None
           (\<lambda>s' g. Some \<lparr>group0 = take (length s - length s') s, group1 = g\<rparr>) = Some m"
proof (induction l)
  case Nil
  then have "rx_match r [] None
      (\<lambda>s' g. Some \<lparr>group0 = take (length ([]::pystr) - length s') [], group1 = g\<rparr>) = Some m"
    by simp
  then show ?case by (rule exI)
next
  case (Cons x xs)
  show ?case
  proof (cases "search r xs = Some m")
    case True
    from Cons.IH[OF this] show ?thesis .
  next
    case False
    with Cons.prems have "rx_match r (x # xs) None
        (\<lambda>s' g. Some \<lparr>group0 = take (length (x # xs) - length s') (x # xs), group1 = g\<rparr>) = Some m"
      by (auto split: option.splits)
    then show ?thesis by (rule exI)
  qed
qed

lemma explicit_match_group1:
  "rx_match explicit_failure_pattern s None (\<lambda>s' g. Some \<lparr>group0 = f s', group1 = g\<rparr>) = Some m
     \<Longrightarrow> \<exists>c. group1 m = Some c"
  unfolding explicit_failure_pattern_def
  apply (drule rx_match_Seq_tail, elim exE)
  apply (drule rx_match_Seq_tail, elim exE)
  apply (drule rx_match_Seq_tail, elim exE)
  apply (drule rx_match_Seq_tail, elim exE)
  apply (drule rx_match_Seq_Group)
   apply simp
  apply auto
  done

lemma explicit_group1:
  "search explicit_failure_pattern l = Some m \<Longrightarrow> \<exists>c. group1 m = Some c"
proof -
  assume "search explicit_failure_pattern l = Some m"
  from search_from_match[OF this] obtain s where
    "rx_match explicit_failure_pattern s None
       (\<lambda>s' g. Some \<lparr>group0 = take (length s - length s') s, group1 = g\<rparr>) = Some m"
    by blast
  then show ?thesis by (rule explicit_match_group1)
qed

text \<open>A match of the URL pattern is never the empty text.\<close>

lemma rx_match_Lit_SomeD:
  "rx_match (Seq (Lit l) r) s g k = Some res \<Longrightarrow>
     startswith s l \<and> rx_match r (drop (length l) s) g k = Some res"
  by (simp split: if_splits)

lemma url_match_nonempty:
  assumes "search (youtube_url_pattern W) l = Some m"
  shows "group0 m \<noteq> []"
proof -
  from search_from_match[OF assms] obtain s where
    m: "rx_match (youtube_url_pattern W) s None
          (\<lambda>s' g. Some \<lparr>group0 = take (length s - length s') s, group1 = g\<rparr>) = Some m"
    by blast
  let ?k = "\<lambda>s' g. Some \<lparr>group0 = take (length s - length s') s, group1 = g\<rparr>"
  from m[unfolded youtube_url_pattern_def] obtain r where
    st: "startswith s (lit ''http'')"
    and r: "rx_match r (drop (length (lit ''http'')) s) None ?k = Some m"
    by (blast dest: rx_match_Lit_SomeD)
  have len: "length (lit ''http'') = 4" by (simp add: lit_def)
  from startswith_length[OF st] have s4: "4 \<le> length s" by (simp add: len)
  from rx_match_from_cont[OF r] show ?thesis
  proof (elim exE conjE)
    fix s' g'
    assume k: "Some \<lparr>group0 = take (length s - length s') s, group1 = g'\<rparr> = Some m"
      and le: "length s' \<le> length (drop (length (lit ''http'')) s)"
    from le s4 have "length s' < length s" by (simp add: len)
    moreover from k have "group0 m = take (length s - length s') s" by auto
    ultimately show ?thesis by (cases s) auto
  qed
qed

section \<open>Where the explicit-failure pattern matches\<close>

lemma startswith_append:
  "startswith s (a @ b) = (startswith s a \<and> startswith (drop (length a) s) b)"
  by (induction s a rule: startswith.induct) (auto simp: neq_Nil_conv)

lemma startswith_same [simp]: "startswith (a @ t) a"
  by (induction a) auto

lemma marker_at_Nil [simp]: "\<not> marker_at []"
  by (simp add: marker_at_def lit_def)

text \<open>The pattern from the alternative on, as the lazy prefix hands over to it.\<close>

lemma no_marker_alt:
  assumes "\<not> marker_at t"
  shows "rx_match
          (Seq (Alt (Lit (lit ''Could not find a match for:''))
               (Alt (Lit (lit ''Failed to download''))
                    (Lit (lit ''Track found but download failed''))))
          (Seq (Lit (lit '':'')) r)) t g k = None"
proof -
  have a: "lit ''Could not find a match for::'' = lit ''Could not find a match for:'' @ lit '':''"
          "lit ''Failed to download:'' = lit ''Failed to download'' @ lit '':''"
          "lit ''Track found but download failed:'' = lit ''Track found but download failed'' @ lit '':''"
    by (simp_all add: lit_def)
  from assms have
    "\<not> (startswith t (lit ''Could not find a match for:'')
        \<and> startswith (drop (length (lit ''Could not find a match for:'')) t) (lit '':''))"
    "\<not> (startswith t (lit ''Failed to download'')
        \<and> startswith (drop (length (lit ''Failed to download'')) t) (lit '':''))"
    "\<not> (startswith t (lit ''Track found but download failed'')
        \<and> startswith (drop (length (lit ''Track found but download failed'')) t) (lit '':''))"
    unfolding marker_at_def a startswith_append by simp_all
  then show ?thesis by auto
qed

lemma star_lazy_none:
  "\<not> has_marker s \<Longrightarrow> (\<And>t. \<not> marker_at t \<Longrightarrow> k t = None) \<Longrightarrow> star_lazy p s k = None"
  by (induction s) auto

lemma rx_match_lazy_then:
  "rx_match (Seq (Star_lazy p) r) s g k = star_lazy p s (\<lambda>s'. rx_match r s' g k)"
  by simp

lemma explicit_match_none:
  "\<not> has_marker s \<Longrightarrow> rx_match explicit_failure_pattern s g k = None"
  unfolding explicit_failure_pattern_def rx_match_lazy_then
  by (rule star_lazy_none, assumption, rule no_marker_alt)

lemma explicit_search_none:
  "\<not> has_marker s \<Longrightarrow> search explicit_failure_pattern s = None"
  by (induction s) (simp_all add: explicit_match_none)

lemma star_lazy_skip:
  "\<forall>c\<in>set b. p c \<Longrightarrow> \<forall>j<length b. k (drop j (b @ t)) = None \<Longrightarrow>
     star_lazy p (b @ t) k = star_lazy p t k"
proof (induction b)
  case Nil
  then show ?case by simp
next
  case (Cons x b)
  from Cons.prems(2) have h: "k (x # b @ t) = None" by auto
  have "\<forall>j<length b. k (drop j (b @ t)) = None"
  proof (intro allI impI)
    fix j assume "j < length b"
    then have "Suc j < length (x # b)" by simp
    with Cons.prems(2) have "k (drop (Suc j) ((x # b) @ t)) = None" by blast
    then show "k (drop j (b @ t)) = None" by simp
  qed
  with Cons.IH Cons.prems(1) have "star_lazy p (b @ t) k = star_lazy p t k" by simp
  with h Cons.prems(1) show ?case by simp
qed

lemma star_lazy_here: "k s = Some r \<Longrightarrow> star_lazy p s k = Some r"
  by (cases s) auto

lemma star_greedy_all:
  "\<forall>c\<in>set ws. p c \<Longrightarrow> rest = [] \<or> \<not> p (hd rest) \<Longrightarrow> k rest = Some r \<Longrightarrow>
     star_greedy p (ws @ rest) k = Some r"
proof (induction ws)
  case Nil
  then show ?case by (cases rest) auto
next
  case (Cons x ws)
  then show ?case by simp
qed

lemma search_here:
  "rx_match r s None (\<lambda>s' g. Some \<lparr>group0 = take (length s - length s') s, group1 = g\<rparr>) = Some m
     \<Longrightarrow> search r s = Some m"
  by (cases s) auto

text \<open>The end of the pattern, \<open>(?::.*)?$\<close>, on what follows the captured text.\<close>

lemma tail_fails:
  "c \<noteq> 58 \<Longrightarrow> c \<noteq> 10 \<Longrightarrow>
     rx_match (Seq (Opt (Seq (Lit (lit '':'')) (Star dot))) Eol) (c # u) g k = None"
  by (simp add: lit_def)

lemma tail_end:
  "rx_match (Seq (Opt (Seq (Lit (lit '':'')) (Star dot))) Eol) [] g k = k [] g"
  by (simp add: lit_def)

lemma tail_colon:
  assumes "10 \<notin> set rest" and "k [] g = Some r"
  shows "rx_match (Seq (Opt (Seq (Lit (lit '':'')) (Star dot))) Eol) (58 # rest) g k = Some r"
proof -
  have "star_greedy dot (rest @ []) (\<lambda>s'. rx_match Eol s' g k) = Some r"
    by (rule star_greedy_all) (use assms in \<open>auto simp: dot_def\<close>)
  then show ?thesis by (simp add: lit_def)
qed

lemma capture_body:
  assumes body: "\<forall>c\<in>set body. c \<noteq> 58 \<and> c \<noteq> 10"
    and tail: "tail = [] \<or> (\<exists>rest. tail = 58 # rest \<and> 10 \<notin> set rest)"
    and k: "k [] (Some body) = Some r"
  shows "rx_match (Seq (Group (Star_lazy dot)) (Seq (Opt (Seq (Lit (lit '':'')) (Star dot))) Eol))
           (body @ tail) g k = Some r"
proof -
  let ?T = "Seq (Opt (Seq (Lit (lit '':'')) (Star dot))) Eol"
  let ?K = "\<lambda>s'. rx_match ?T s' (Some (take (length (body @ tail) - length s') (body @ tail))) k"
  have skip: "\<forall>j<length body. ?K (drop j (body @ tail)) = None"
  proof (intro allI impI)
    fix j assume j: "j < length body"
    then have d: "drop j (body @ tail) = body ! j # drop (Suc j) (body @ tail)"
      by (simp add: Cons_nth_drop_Suc nth_append)
    from j body have "body ! j \<noteq> 58" "body ! j \<noteq> 10" by auto
    then show "?K (drop j (body @ tail)) = None"
      unfolding d by (rule tail_fails)
  qed
  have "rx_match ?T tail (Some body) k = Some r"
  proof (cases tail)
    case Nil
    with k show ?thesis by (simp only: tail_end)
  next
    case (Cons c rest)
    with tail have t: "tail = 58 # rest" and n: "10 \<notin> set rest" by auto
    show ?thesis unfolding t using n k by (rule tail_colon)
  qed
  then have here: "?K tail = Some r" by simp
  have "star_lazy dot (body @ tail) ?K = star_lazy dot tail ?K"
    by (rule star_lazy_skip) (use body skip in \<open>auto simp: dot_def\<close>)
  also have "\<dots> = Some r" using here by (rule star_lazy_here)
  finally show ?thesis by simp
qed

lemma alt_at_marker:
  assumes "M = lit ''Could not find a match for:'' \<or> M = lit ''Failed to download''
           \<or> M = lit ''Track found but download failed''"
  shows "rx_match
          (Seq (Alt (Lit (lit ''Could not find a match for:''))
               (Alt (Lit (lit ''Failed to download''))
                    (Lit (lit ''Track found but download failed''))))
          (Seq (Lit (lit '':'')) r)) (M @ lit '':'' @ t) g k = rx_match r t g k"
  using assms by (auto simp: lit_def split: option.splits)

lemma rx_match_greedy_then:
  "rx_match (Seq (Star p) r) s g k = star_greedy p s (\<lambda>s'. rx_match r s' g k)"
  by simp

lemma explicit_search_found:
  assumes M: "M = lit ''Could not find a match for:'' \<or> M = lit ''Failed to download''
              \<or> M = lit ''Track found but download failed''"
    and line: "line = pre @ M @ lit '':'' @ ws @ body @ tail"
    and pre: "\<forall>c\<in>set pre. c \<noteq> 10" "\<forall>j<length pre. \<not> marker_at (drop j line)"
    and ws: "\<forall>c\<in>set ws. isspace c"
    and body: "\<forall>c\<in>set body. c \<noteq> 58 \<and> c \<noteq> 10" "body = [] \<or> \<not> isspace (hd body)"
    and tail: "tail = [] \<or> (\<exists>rest. tail = 58 # rest \<and> 10 \<notin> set rest)"
  shows "search explicit_failure_pattern line = Some \<lparr>group0 = line, group1 = Some body\<rparr>"
proof -
  let ?k = "\<lambda>s' g. Some \<lparr>group0 = take (length line - length s') line, group1 = g\<rparr>"
  let ?G = "Seq (Group (Star_lazy dot)) (Seq (Opt (Seq (Lit (lit '':'')) (Star dot))) Eol)"
  let ?R = "Seq (Star isspace) ?G"
  let ?A = "Seq (Alt (Lit (lit ''Could not find a match for:''))
               (Alt (Lit (lit ''Failed to download''))
                    (Lit (lit ''Track found but download failed''))))
          (Seq (Lit (lit '':'')) ?R)"
  let ?res = "\<lparr>group0 = line, group1 = Some body\<rparr>"
  define t where "t = M @ lit '':'' @ ws @ body @ tail"
  have lt: "line = pre @ t" by (simp add: line t_def)
  have k: "?k [] (Some body) = Some ?res" by simp
  have g: "rx_match ?G (body @ tail) None ?k = Some ?res"
    using body(1) tail k by (rule capture_body)
  have nsp: "body @ tail = [] \<or> \<not> isspace (hd (body @ tail))"
    using body(2) tail by (cases body) (auto simp: isspace_def)
  have "star_greedy isspace (ws @ body @ tail) (\<lambda>s'. rx_match ?G s' None ?k) = Some ?res"
    using ws nsp g by (rule star_greedy_all)
  then have r: "rx_match ?R (ws @ body @ tail) None ?k = Some ?res"
    by (simp only: rx_match_greedy_then)
  have a: "rx_match ?A t None ?k = Some ?res"
    unfolding t_def using r by (simp only: alt_at_marker[OF M])
  have skip: "\<forall>j<length pre. rx_match ?A (drop j (pre @ t)) None ?k = None"
  proof (intro allI impI)
    fix j assume "j < length pre"
    with pre(2) have "\<not> marker_at (drop j (pre @ t))" by (simp add: lt)
    then show "rx_match ?A (drop j (pre @ t)) None ?k = None" by (rule no_marker_alt)
  qed
  have d: "\<forall>c\<in>set pre. dot c" using pre(1) by (simp add: dot_def)
  have "star_lazy dot (pre @ t) (\<lambda>s'. rx_match ?A s' None ?k)
        = star_lazy dot t (\<lambda>s'. rx_match ?A s' None ?k)"
    using d skip by (rule star_lazy_skip)
  also have "\<dots> = Some ?res" using a by (rule star_lazy_here)
  finally have "rx_match explicit_failure_pattern (pre @ t) None ?k = Some ?res"
    unfolding explicit_failure_pattern_def rx_match_lazy_then .
  then have "rx_match explicit_failure_pattern line None ?k = Some ?res"
    by (simp only: lt)
  then show ?thesis by (rule search_here)
qed

section \<open>The scan as the union of what each cursor position adds\<close>

lemma url_scan_eq:
  "hi \<le> length ls \<Longrightarrow> url_scan W ls j hi = Inr (first_url W (take (hi - j) (drop j ls)))"
proof (induction "hi - j" arbitrary: j)
  case 0
  then have "\<not> j < hi" by simp
  then show ?case by (subst url_scan.simps) simp
next
  case (Suc n)
  then have j: "j < hi" "j < length ls" and n: "n = hi - Suc j" by simp_all
  have d: "take (hi - j) (drop j ls) = ls ! j # take (hi - Suc j) (drop (Suc j) ls)"
  proof -
    have "hi - j = Suc (hi - Suc j)" using j by simp
    then show ?thesis using j by (simp add: Cons_nth_drop_Suc[symmetric])
  qed
  show ?case
    using Suc.hyps(1)[OF n Suc.prems] j
    by (subst url_scan.simps) (simp add: d index_def split: option.splits)
qed

lemma first_url_append:
  "first_url W (xs @ ys) = (case first_url W xs of Some u \<Rightarrow> Some u | None \<Rightarrow> first_url W ys)"
  by (induction xs) (auto split: option.splits)

lemma first_url_None:
  "first_url W xs = None \<longleftrightarrow> (\<forall>l\<in>set xs. search (youtube_url_pattern W) l = None)"
  by (induction xs) (auto split: option.splits)

lemma first_url_Some:
  assumes "j < length xs" and "search (youtube_url_pattern W) (xs ! j) = Some m"
    and "\<forall>j'<j. search (youtube_url_pattern W) (xs ! j') = None"
  shows "first_url W xs = Some (group0 m)"
  using assms
proof (induction xs arbitrary: j)
  case Nil
  then show ?case by simp
next
  case (Cons x xs)
  show ?case
  proof (cases j)
    case 0
    with Cons.prems show ?thesis by simp
  next
    case (Suc n)
    with Cons.prems(3) have x: "search (youtube_url_pattern W) x = None" by auto
    have "\<forall>j'<n. search (youtube_url_pattern W) (xs ! j') = None"
      using Cons.prems(3) Suc by auto
    with Cons.IH[of n] Cons.prems(1,2) Suc have "first_url W xs = Some (group0 m)" by simp
    with x show ?thesis by simp
  qed
qed

lemma first_url_nonempty: "first_url W xs = Some u \<Longrightarrow> u \<noteq> []"
  by (induction xs) (auto split: option.splits dest: url_match_nonempty)

lemma scan_lines_step:
  assumes "i < length ls"
  shows "scan_lines W ls i acc = scan_lines W ls (Suc i) (acc \<union> set_option (line_record W ls i))"
proof -
  have w: "take (min (i + 4) (length ls) - i) (drop i ls) = take 4 (drop i ls)"
    using assms by (simp add: min_def)
  show ?thesis
  proof (cases "search explicit_failure_pattern (ls ! i)")
    case None
    then show ?thesis using assms
      by (subst scan_lines.simps)
         (simp add: index_def line_record_def url_scan_eq w split: option.splits)
  next
    case (Some m)
    with explicit_group1 obtain c where "group1 m = Some c" by blast
    with Some show ?thesis using assms
      by (subst scan_lines.simps) (simp add: index_def line_record_def)
  qed
qed

lemma scan_lines_eq:
  "i \<le> length ls \<Longrightarrow>
     scan_lines W ls i acc = Inr (acc \<union> (\<Union>j\<in>{i..<length ls}. set_option (line_record W ls j)))"
proof (induction "length ls - i" arbitrary: i acc)
  case 0
  then have "\<not> i < length ls" by simp
  then show ?case by (subst scan_lines.simps) simp
next
  case (Suc n)
  then have i: "i < length ls" and n: "n = length ls - Suc i" by simp_all
  have u: "{i..<length ls} = insert i {Suc i..<length ls}" using i by auto
  show ?case
    using Suc.hyps(1)[OF n, of "acc \<union> set_option (line_record W ls i)"] i
    by (simp add: scan_lines_step u Un_assoc)
qed

lemma finite_all_records: "finite (all_records W ls)"
  by (simp add: all_records_def)

lemma parse_eq: "parse_failed_downloads W ls = Inr (sorted_list_of_set (all_records W ls))"
  by (simp add: parse_failed_downloads_def scan_lines_eq all_records_def)

lemma parse_set: "parse_failed_downloads W ls = Inr rs \<Longrightarrow> set rs = all_records W ls"
  by (auto simp: parse_eq finite_all_records)

section \<open>What one cursor position adds\<close>

lemma scan_lines_done: "\<not> i < length ls \<Longrightarrow> scan_lines W ls i acc = Inr acc"
  by (subst scan_lines.simps) simp

lemma line_record_member:
  "i < length ls \<Longrightarrow> line_record W ls i = Some r \<Longrightarrow> r \<in> all_records W ls"
  by (auto simp: all_records_def intro!: bexI[of _ i])

lemma parse_member:
  "i < length ls \<Longrightarrow> line_record W ls i = Some r \<Longrightarrow>
     \<exists>rs. parse_failed_downloads W ls = Inr rs \<and> r \<in> set rs"
  by (simp add: parse_eq finite_all_records line_record_member)

lemma window_nth:
  "n < 4 \<Longrightarrow> i + n < length ls \<Longrightarrow> take 4 (drop i ls) ! n = ls ! (i + n)"
  by simp

lemma line_record_url:
  assumes "i < length ls"
    and "search explicit_failure_pattern (ls ! i) = None"
    and "contains (lit ''AudioProviderError:'') (ls ! i)"
    and "i \<le> j" and "j < min (i + 4) (length ls)"
    and "search (youtube_url_pattern W) (ls ! j) = Some m"
    and "\<forall>j'. i \<le> j' \<and> j' < j \<longrightarrow> search (youtube_url_pattern W) (ls ! j') = None"
  shows "line_record W ls i = Some (url_record (group0 m))"
proof -
  let ?w = "take 4 (drop i ls)"
  have 1: "j - i < length ?w" using assms(4,5) by auto
  have lt4: "j - i < 4" using assms(4,5) by arith
  have ij: "i + (j - i) = j" using assms(4) by simp
  have "?w ! (j - i) = ls ! (i + (j - i))"
    using lt4 assms(5) by (intro window_nth) (simp_all add: ij)
  then have 2: "?w ! (j - i) = ls ! j" by (simp only: ij)
  have 3: "\<forall>j'<j - i. search (youtube_url_pattern W) (?w ! j') = None"
  proof (intro allI impI)
    fix j' assume a: "j' < j - i"
    with assms(4,5) have "j' < 4" "i + j' < length ls" by arith+
    then have "?w ! j' = ls ! (i + j')" by (rule window_nth)
    moreover from a assms(7) have "search (youtube_url_pattern W) (ls ! (i + j')) = None" by simp
    ultimately show "search (youtube_url_pattern W) (?w ! j') = None" by simp
  qed
  from assms(6) 2 have "search (youtube_url_pattern W) (?w ! (j - i)) = Some m" by simp
  from first_url_Some[OF 1 this 3] have "first_url W ?w = Some (group0 m)" .
  moreover have "group0 m \<noteq> []" using assms(6) by (rule url_match_nonempty)
  ultimately show ?thesis using assms(2,3) by (simp add: line_record_def)
qed

lemma line_record_generic:
  assumes "i < length ls"
    and "search explicit_failure_pattern (ls ! i) = None"
    and "contains (lit ''AudioProviderError:'') (ls ! i)"
    and "\<forall>j. i \<le> j \<and> j < min (i + 4) (length ls) \<longrightarrow> search (youtube_url_pattern W) (ls ! j) = None"
  shows "line_record W ls i = Some (generic_record (ls ! i))"
proof -
  have "\<forall>l\<in>set (take 4 (drop i ls)). search (youtube_url_pattern W) l = None"
  proof
    fix l assume "l \<in> set (take 4 (drop i ls))"
    then obtain n where n: "n < length (take 4 (drop i ls))" "l = take 4 (drop i ls) ! n"
      by (auto simp: in_set_conv_nth)
    then have "l = ls ! (i + n)" "i + n < min (i + 4) (length ls)" by auto
    with assms(4) show "search (youtube_url_pattern W) l = None" by simp
  qed
  then have "first_url W (take 4 (drop i ls)) = None" by (simp add: first_url_None)
  then show ?thesis using assms(2,3) by (simp add: line_record_def)
qed

lemma line_record_empty_capture:
  assumes "search explicit_failure_pattern (ls ! i) = Some m" and "group1 m = Some c" and "strip c = []"
  shows "line_record W ls i = None"
  using assms by (simp add: line_record_def)

lemma line_record_capture:
  assumes "search explicit_failure_pattern (ls ! i) = Some m" and "group1 m = Some c" and "strip c \<noteq> []"
  shows "line_record W ls i = Some (strip c)"
  using assms by (simp add: line_record_def)

section \<open>Evaluating the classifier on a given input\<close>

text \<open>
  A given list of lines is classified by stepping the cursor through it; the searches on
  the single lines are evaluated on their own and handed to the stepping as facts.
\<close>

lemmas scan_eval = parse_failed_downloads_def scan_lines_step scan_lines_done line_record_def

lemma example_no_explicit_match:
  "search explicit_failure_pattern (lit ''ERROR AudioProviderError: something'') = None"
  "search explicit_failure_pattern (lit ''some noise'') = None"
  "search explicit_failure_pattern (lit ''https://music.youtube.com/watch?v=abc123XYZ_-'') = None"
  by (rule explicit_search_none, simp add: lit_def marker_at_def)+

lemma example_audio_marker:
  "contains (lit ''AudioProviderError:'') (lit ''ERROR AudioProviderError: something'')"
  "\<not> contains (lit ''AudioProviderError:'') (lit ''some noise'')"
  "\<not> contains (lit ''AudioProviderError:'') (lit ''https://music.youtube.com/watch?v=abc123XYZ_-'')"
  by (simp_all add: lit_def)

lemma example_url_search:
  "search (youtube_url_pattern W) (lit ''ERROR AudioProviderError: something'') = None"
  "search (youtube_url_pattern W) (lit ''some noise'') = None"
  "search (youtube_url_pattern W) (lit ''https://music.youtube.com/watch?v=abc123XYZ_-'')
     = Some \<lparr>group0 = lit ''https://music.youtube.com/watch?v=abc123XYZ_-'', group1 = None\<rparr>"
  by (simp_all add: youtube_url_pattern_def lit_def is_word_def)

lemma example_url_nonempty: "lit ''https://music.youtube.com/watch?v=abc123XYZ_-'' \<noteq> []"
  by (simp add: lit_def)

lemmas example_lines =
  example_no_explicit_match example_audio_marker example_url_search example_url_nonempty

section \<open>A single line that matches the explicit-failure pattern\<close>

lemma parse_single:
  "parse_failed_downloads W [l] = Inr (case line_record W [l] 0 of None \<Rightarrow> [] | Some r \<Rightarrow> [r])"
  by (simp add: parse_failed_downloads_def scan_lines_step scan_lines_done split: option.splits)

lemma dropWhile_keeps: "x \<in> set xs \<Longrightarrow> \<not> P x \<Longrightarrow> x \<in> set (dropWhile P xs)"
  by (induction xs) auto

lemma strip_nonempty: "x \<in> set s \<Longrightarrow> \<not> isspace x \<Longrightarrow> strip s \<noteq> []"
proof -
  assume x: "x \<in> set s" "\<not> isspace x"
  then have "x \<in> set (dropWhile isspace s)" by (rule dropWhile_keeps)
  then have "x \<in> set (rev (dropWhile isspace s))" by simp
  then have "x \<in> set (dropWhile isspace (rev (dropWhile isspace s)))"
    using x(2) by (rule dropWhile_keeps)
  then have "dropWhile isspace (rev (dropWhile isspace s)) \<noteq> []"
    by (metis empty_iff empty_set)
  then show ?thesis by (simp add: strip_def)
qed

lemma parse_single_explicit:
  assumes "search explicit_failure_pattern l = Some \<lparr>group0 = l, group1 = Some c\<rparr>"
  shows "parse_failed_downloads W [l] = Inr (if strip c \<noteq> [] then [strip c] else [])"
  using assms by (simp add: parse_single line_record_def)

section \<open>The marker that needs two colons\<close>

lemma example_could_not_find:
  "search explicit_failure_pattern
     (lit ''Could not find a match for: Song Title - Artist Name: reason text'') = None"
  "\<not> contains (lit ''AudioProviderError:'')
      (lit ''Could not find a match for: Song Title - Artist Name: reason text'')"
  by (rule explicit_search_none, simp_all add: lit_def marker_at_def)

text \<open>
  Claim C1. The first alternative of the pattern ends in a colon of its own and the pattern
  asks for one more colon after the alternative, so the marker \<open>Could not find a match for:\<close>
  is recognised only when two colons follow the phrase. On the line of the specification's
  example, which has one colon, the pattern does not match and the classifier returns the
  empty list; with two colons it returns the record the example expects.
\<close>

theorem could_not_find_example_unrecorded:
  "parse_failed_downloads W
     [lit ''Could not find a match for: Song Title - Artist Name: reason text''] = Inr []
   \<and> parse_failed_downloads W
     [lit ''Could not find a match for:: Song Title - Artist Name: reason text'']
     = Inr [lit ''Song Title - Artist Name'']"
proof
  show "parse_failed_downloads W
     [lit ''Could not find a match for: Song Title - Artist Name: reason text''] = Inr []"
    by (simp add: parse_single line_record_def example_could_not_find)
next
  let ?l = "[] @ lit ''Could not find a match for:'' @ lit '':'' @ lit '' ''
              @ lit ''Song Title - Artist Name'' @ lit '': reason text''"
  have "search explicit_failure_pattern ?l
        = Some \<lparr>group0 = ?l, group1 = Some (lit ''Song Title - Artist Name'')\<rparr>"
    by (rule explicit_search_found[OF _ refl]) (simp_all add: lit_def isspace_def)
  then have "parse_failed_downloads W [?l]
        = Inr (if strip (lit ''Song Title - Artist Name'') \<noteq> []
               then [strip (lit ''Song Title - Artist Name'')] else [])"
    by (rule parse_single_explicit)
  then show "parse_failed_downloads W
     [lit ''Could not find a match for:: Song Title - Artist Name: reason text'']
     = Inr [lit ''Song Title - Artist Name'']"
    by (simp add: lit_def strip_def isspace_def)
qed

theorem could_not_find_example_unrecorded_witness:
  "parse_failed_downloads ascii_alnum_only
     [lit ''Could not find a match for: Song Title - Artist Name: reason text''] = Inr []
   \<and> parse_failed_downloads ascii_alnum_only
     [lit ''Could not find a match for:: Song Title - Artist Name: reason text'']
     = Inr [lit ''Song Title - Artist Name'']"
  by (rule could_not_find_example_unrecorded)

section \<open>Classifying a prefix of the lines\<close>

lemma line_record_cong:
  "ls ! i = ls' ! i' \<Longrightarrow>
   first_url W (take 4 (drop i ls)) = first_url W (take 4 (drop i' ls')) \<Longrightarrow>
   line_record W ls i = line_record W ls' i'"
proof -
  assume a: "ls ! i = ls' ! i'"
    and b: "first_url W (take 4 (drop i ls)) = first_url W (take 4 (drop i' ls'))"
  show ?thesis unfolding line_record_def a b by (rule refl)
qed

lemma line_record_no_url:
  "line_record W ls i = Some r \<Longrightarrow> search explicit_failure_pattern (ls ! i) = None \<Longrightarrow>
   first_url W (take 4 (drop i ls)) = None \<Longrightarrow> r = generic_record (ls ! i)"
  by (simp add: line_record_def split: if_splits)

lemma line_record_explicit_cong:
  "ls ! i = ls' ! i' \<Longrightarrow> search explicit_failure_pattern (ls ! i) = Some m \<Longrightarrow>
   line_record W ls i = line_record W ls' i'"
  by (simp add: line_record_def)

lemma line_record_prefix:
  assumes j: "j < length P" and r: "line_record W P j = Some r"
  shows "line_record W (P @ S) j = Some r
         \<or> (r = generic_record (P ! j) \<and> length P < j + 4)"
proof -
  have n: "(P @ S) ! j = P ! j" using j by (simp add: nth_append)
  have w: "take 4 (drop j (P @ S)) = take 4 (drop j P) @ take (4 - (length P - j)) S"
    using j by simp
  show ?thesis
  proof (cases "search explicit_failure_pattern (P ! j)")
    case (Some m)
    from n Some have "line_record W (P @ S) j = line_record W P j"
      by (intro line_record_explicit_cong[of _ _ _ _ m]) simp_all
    with r show ?thesis by simp
  next
    case None
    note e = this
    show ?thesis
    proof (cases "first_url W (take 4 (drop j P))")
      case (Some u)
      then have "first_url W (take 4 (drop j (P @ S))) = first_url W (take 4 (drop j P))"
        unfolding w by (simp add: first_url_append)
      with n have "line_record W (P @ S) j = line_record W P j" by (rule line_record_cong)
      with r show ?thesis by simp
    next
      case None
      with r e have g: "r = generic_record (P ! j)" by (intro line_record_no_url)
      show ?thesis
      proof (cases "length P < j + 4")
        case True
        with g show ?thesis by simp
      next
        case False
        then have t: "take (4 - (length P - j)) S = []" by simp
        have "first_url W (take 4 (drop j (P @ S))) = first_url W (take 4 (drop j P))"
          by (simp only: w t append_Nil2)
        with n have "line_record W (P @ S) j = line_record W P j" by (rule line_record_cong)
        with r show ?thesis by simp
      qed
    qed
  qed
qed

lemma all_records_prefix:
  "all_records W P \<subseteq> all_records W (P @ S) \<union> generic_record ` set (drop (length P - 3) P)"
proof
  fix r assume "r \<in> all_records W P"
  then obtain j where j: "j < length P" and r: "line_record W P j = Some r"
    by (auto simp: all_records_def)
  from line_record_prefix[OF j r, of S]
  show "r \<in> all_records W (P @ S) \<union> generic_record ` set (drop (length P - 3) P)"
  proof
    assume "line_record W (P @ S) j = Some r"
    moreover from j have "j < length (P @ S)" by simp
    ultimately have "r \<in> all_records W (P @ S)" by (rule line_record_member[rotated])
    then show ?thesis by simp
  next
    assume a: "r = generic_record (P ! j) \<and> length P < j + 4"
    with j have "P ! j = drop (length P - 3) P ! (j - (length P - 3))"
      and "j - (length P - 3) < length (drop (length P - 3) P)" by auto
    then have "P ! j \<in> set (drop (length P - 3) P)" by (metis nth_mem)
    with a show ?thesis by simp
  qed
qed

text \<open>
  Claim C2, as amended. For every list of lines \<open>P\<close> and every continuation \<open>S\<close>, each
  record returned for the prefix \<open>P\<close> is also returned for \<open>P @ S\<close>, except possibly a
  generic audio-provider record that quotes one of the last three lines of \<open>P\<close>: the window
  of such a line is cut off by the end of \<open>P\<close>, and a URL that arrives with \<open>S\<close> turns its
  record into a URL record.
\<close>

theorem prefix_records_kept:
  "\<exists>rp rl. parse_failed_downloads W P = Inr rp \<and> parse_failed_downloads W (P @ S) = Inr rl
     \<and> set rp \<subseteq> set rl \<union> generic_record ` set (drop (length P - 3) P)"
  using all_records_prefix[of W P S] by (simp add: parse_eq finite_all_records)

theorem prefix_records_kept_witness:
  "\<exists>rp rl. parse_failed_downloads ascii_alnum_only
              [lit ''some noise'', lit ''ERROR AudioProviderError: something''] = Inr rp
     \<and> parse_failed_downloads ascii_alnum_only
              ([lit ''some noise'', lit ''ERROR AudioProviderError: something'']
               @ [lit ''https://music.youtube.com/watch?v=abc123XYZ_-'']) = Inr rl
     \<and> set rp \<subseteq> set rl \<union> generic_record `
           set (drop (length [lit ''some noise'', lit ''ERROR AudioProviderError: something''] - 3)
                  [lit ''some noise'', lit ''ERROR AudioProviderError: something''])"
  by (rule prefix_records_kept)

text \<open>
  Claim C2 as stated fails: the generic record returned for the one-line prefix is not
  among the records returned once the next line, a URL, has arrived.
\<close>

theorem prefix_record_replaced:
  "parse_failed_downloads ascii_alnum_only [lit ''ERROR AudioProviderError: something'']
     = Inr [generic_record (lit ''ERROR AudioProviderError: something'')]
   \<and> parse_failed_downloads ascii_alnum_only
       ([lit ''ERROR AudioProviderError: something'']
        @ [lit ''https://music.youtube.com/watch?v=abc123XYZ_-''])
     = Inr [url_record (lit ''https://music.youtube.com/watch?v=abc123XYZ_-'')]
   \<and> \<not> set [generic_record (lit ''ERROR AudioProviderError: something'')]
         \<subseteq> set [url_record (lit ''https://music.youtube.com/watch?v=abc123XYZ_-'')]"
proof (intro conjI)
  show "parse_failed_downloads ascii_alnum_only [lit ''ERROR AudioProviderError: something'']
     = Inr [generic_record (lit ''ERROR AudioProviderError: something'')]"
    by (simp add: scan_eval example_lines)
  show "parse_failed_downloads ascii_alnum_only
       ([lit ''ERROR AudioProviderError: something'']
        @ [lit ''https://music.youtube.com/watch?v=abc123XYZ_-''])
     = Inr [url_record (lit ''https://music.youtube.com/watch?v=abc123XYZ_-'')]"
    by (simp add: scan_eval example_lines)
  show "\<not> set [generic_record (lit ''ERROR AudioProviderError: something'')]
         \<subseteq> set [url_record (lit ''https://music.youtube.com/watch?v=abc123XYZ_-'')]"
    by (simp add: generic_record_def url_record_def lit_def)
qed

section \<open>The classifier never raises\<close>

text \<open>
  Claim C3. For every list of lines (empty, malformed, with code points beyond ASCII, of any
  length) the classifier returns a list: neither of the two errors it could raise, an index
  out of range or \<open>strip\<close> called on a missing group, ever occurs. The functions of the
  model are total, their recursion being shown to end. For the empty list the result is
  the empty list.
\<close>

theorem classifier_never_raises:
  "(\<exists>rs. parse_failed_downloads uni_alnum output_lines = Inr rs)
   \<and> parse_failed_downloads uni_alnum [] = Inr []"
proof
  show "\<exists>rs. parse_failed_downloads uni_alnum output_lines = Inr rs"
    by (simp add: parse_eq)
  show "parse_failed_downloads uni_alnum [] = Inr []"
    by (simp add: parse_eq all_records_def)
qed

theorem classifier_never_raises_witness:
  "(\<exists>rs. parse_failed_downloads ascii_alnum_only
            [[8364, 10, 58, 58], lit ''Failed to download:'', [], lit ''AudioProviderError:'']
          = Inr rs)
   \<and> parse_failed_downloads ascii_alnum_only [] = Inr []"
  by (rule classifier_never_raises)

section \<open>The result is sorted and has no duplicates\<close>

lemma parse_sorted_distinct:
  "\<exists>rs. parse_failed_downloads W ls = Inr rs \<and> sorted rs \<and> distinct rs"
  by (simp add: parse_eq)

lemma parse_determined_by_set:
  assumes "parse_failed_downloads W xs = Inr r1" and "parse_failed_downloads W ys = Inr r2"
    and "set r1 = set r2"
  shows "r1 = r2"
proof -
  from assms(1) have 1: "r1 = sorted_list_of_set (all_records W xs)" by (simp add: parse_eq)
  from assms(2) have 2: "r2 = sorted_list_of_set (all_records W ys)" by (simp add: parse_eq)
  from 1 have "set r1 = all_records W xs" by (simp add: finite_all_records)
  moreover from 2 have "set r2 = all_records W ys" by (simp add: finite_all_records)
  ultimately show ?thesis using assms(3) 1 2 by simp
qed

lemma parse_twice:
  assumes "search explicit_failure_pattern l = Some m" and "group1 m = Some c" and "strip c \<noteq> []"
  shows "parse_failed_downloads W [l, l] = Inr [strip c]"
  using assms by (simp add: scan_eval)

lemma sorted_list_of_pair:
  fixes a b :: "'a::linorder"
  assumes "a < b"
  shows "sorted_list_of_set {a, b} = [a, b]" and "sorted_list_of_set {b, a} = [a, b]"
proof -
  from assms have ne: "a \<noteq> b" by simp
  then have "{b} - {a} = {b}" by auto
  moreover from assms have "a \<le> b" by simp
  ultimately show 1: "sorted_list_of_set {a, b} = [a, b]"
    by (simp add: sorted_list_of_set_insert_remove)
  have "{b, a} = {a, b}" by auto
  with 1 show "sorted_list_of_set {b, a} = [a, b]" by simp
qed

lemma example_two_songs:
  "search explicit_failure_pattern (lit ''Failed to download: B'')
     = Some \<lparr>group0 = lit ''Failed to download: B'', group1 = Some (lit ''B'')\<rparr>"
  "search explicit_failure_pattern (lit ''Failed to download: A'')
     = Some \<lparr>group0 = lit ''Failed to download: A'', group1 = Some (lit ''A'')\<rparr>"
proof -
  have b: "lit ''Failed to download: B''
             = [] @ lit ''Failed to download'' @ lit '':'' @ lit '' '' @ lit ''B'' @ []"
    and a: "lit ''Failed to download: A''
             = [] @ lit ''Failed to download'' @ lit '':'' @ lit '' '' @ lit ''A'' @ []"
    by (simp_all add: lit_def)
  show "search explicit_failure_pattern (lit ''Failed to download: B'')
     = Some \<lparr>group0 = lit ''Failed to download: B'', group1 = Some (lit ''B'')\<rparr>"
    unfolding b by (rule explicit_search_found[OF _ refl]) (simp_all add: lit_def isspace_def)
  show "search explicit_failure_pattern (lit ''Failed to download: A'')
     = Some \<lparr>group0 = lit ''Failed to download: A'', group1 = Some (lit ''A'')\<rparr>"
    unfolding a by (rule explicit_search_found[OF _ refl]) (simp_all add: lit_def isspace_def)
qed

lemma example_two_songs_strip:
  "strip (lit ''A'') = lit ''A''" "strip (lit ''B'') = lit ''B''" "lit ''A'' \<noteq> []" "lit ''B'' \<noteq> []"
  "lit ''A'' < lit ''B''" "lit ''A'' \<noteq> lit ''B''" "lit ''B'' \<noteq> lit ''A''"
  by (simp_all add: lit_def strip_def isspace_def)

text \<open>
  Claim C4. For every list of lines the result is sorted in the lexicographic order of
  code points and holds no record twice. Two identical lines that match the
  explicit-failure pattern with a capture that is not empty after trimming give exactly
  one record. The order of the result does not depend on the order of the lines: two
  inputs that yield the same set of records yield the same list.
\<close>

theorem result_sorted_without_duplicates:
  "(\<exists>rs. parse_failed_downloads W ls = Inr rs \<and> sorted rs \<and> distinct rs)
   \<and> (search explicit_failure_pattern l = Some m \<and> group1 m = Some c \<and> strip c \<noteq> []
        \<longrightarrow> parse_failed_downloads W [l, l] = Inr [strip c])
   \<and> (parse_failed_downloads W xs = Inr r1 \<and> parse_failed_downloads W ys = Inr r2
          \<and> set r1 = set r2
        \<longrightarrow> r1 = r2)"
proof (intro conjI impI)
  show "\<exists>rs. parse_failed_downloads W ls = Inr rs \<and> sorted rs \<and> distinct rs"
    by (rule parse_sorted_distinct)
next
  assume "search explicit_failure_pattern l = Some m \<and> group1 m = Some c \<and> strip c \<noteq> []"
  then show "parse_failed_downloads W [l, l] = Inr [strip c]"
    by (intro parse_twice) auto
next
  assume "parse_failed_downloads W xs = Inr r1 \<and> parse_failed_downloads W ys = Inr r2
          \<and> set r1 = set r2"
  then show "r1 = r2" by (intro parse_determined_by_set[of W xs r1 ys r2]) auto
qed

theorem result_sorted_without_duplicates_witness:
  "(\<exists>rs. parse_failed_downloads ascii_alnum_only
           [lit ''Failed to download: B'',
            lit ''Failed to download: A'',
            lit ''Failed to download: B''] = Inr rs
         \<and> sorted rs \<and> distinct rs)
   \<and> parse_failed_downloads ascii_alnum_only
        [lit ''Failed to download: B'',
         lit ''Failed to download: B'']
      = Inr [strip (lit ''B'')]
   \<and> parse_failed_downloads ascii_alnum_only
        [lit ''Failed to download: B'',
         lit ''Failed to download: A'']
      = Inr [lit ''A'', lit ''B'']
   \<and> parse_failed_downloads ascii_alnum_only
        [lit ''Failed to download: A'',
         lit ''Failed to download: B'']
      = Inr [lit ''A'', lit ''B'']"
proof (intro conjI)
  let ?a = "lit ''Failed to download: A''"
  let ?b = "lit ''Failed to download: B''"
  let ?m = "\<lparr>group0 = ?b, group1 = Some (lit ''B'')\<rparr>"
  note t = result_sorted_without_duplicates
    [of ascii_alnum_only "[?b, ?a, ?b]" ?b ?m "lit ''B''" "[?b, ?a]" "[lit ''A'', lit ''B'']"
        "[?a, ?b]" "[lit ''A'', lit ''B'']"]
  from t show "\<exists>rs. parse_failed_downloads ascii_alnum_only [?b, ?a, ?b] = Inr rs
         \<and> sorted rs \<and> distinct rs"
    by (rule conjunct1)
  have h: "search explicit_failure_pattern ?b = Some ?m \<and> group1 ?m = Some (lit ''B'')
           \<and> strip (lit ''B'') \<noteq> []"
    by (simp add: example_two_songs example_two_songs_strip)
  from t[THEN conjunct2, THEN conjunct1] h
  show "parse_failed_downloads ascii_alnum_only [?b, ?b] = Inr [strip (lit ''B'')]"
    by (rule mp)
  show "parse_failed_downloads ascii_alnum_only [?b, ?a] = Inr [lit ''A'', lit ''B'']"
    by (simp add: scan_eval example_two_songs example_two_songs_strip
          sorted_list_of_pair[OF example_two_songs_strip(5)])
  show "parse_failed_downloads ascii_alnum_only [?a, ?b] = Inr [lit ''A'', lit ''B'']"
    by (simp add: scan_eval example_two_songs example_two_songs_strip
          sorted_list_of_pair[OF example_two_songs_strip(5)])
qed

section \<open>The captured text ends at the first colon\<close>

text \<open>
  Claim C5. The single line \<open>Failed to download: Another Song\<close> gives exactly the record
  \<open>Another Song\<close>, and \<open>Failed to download: Song: Remix Version\<close> gives exactly \<open>Song\<close>.
  In general: let a line consist of a text \<open>pre\<close> without a newline, before the end of which
  no marker with its colon starts, one of the three marker phrases, the colon, whitespace
  \<open>ws\<close>, a text \<open>body\<close> that holds neither a colon nor a newline and does not start with
  whitespace, a colon, and a rest without a newline. Then the record is \<open>body\<close>, trimmed:
  the captured text ends at the first colon after the marker.
\<close>

theorem explicit_capture_truncated:
  "parse_failed_downloads W [lit ''Failed to download: Another Song''] = Inr [lit ''Another Song'']
   \<and> parse_failed_downloads W [lit ''Failed to download: Song: Remix Version''] = Inr [lit ''Song'']
   \<and> ((M = lit ''Could not find a match for:'' \<or> M = lit ''Failed to download''
          \<or> M = lit ''Track found but download failed'')
        \<and> (\<forall>c\<in>set pre. c \<noteq> 10)
        \<and> (\<forall>j<length pre. \<not> marker_at (drop j (pre @ M @ lit '':'' @ ws @ body @ 58 # rest)))
        \<and> (\<forall>c\<in>set ws. isspace c)
        \<and> body \<noteq> [] \<and> \<not> isspace (hd body) \<and> (\<forall>c\<in>set body. c \<noteq> 58 \<and> c \<noteq> 10)
        \<and> 10 \<notin> set rest
      \<longrightarrow> parse_failed_downloads W [pre @ M @ lit '':'' @ ws @ body @ 58 # rest] = Inr [strip body])"
proof (intro conjI impI)
  have "search explicit_failure_pattern ([] @ lit ''Failed to download'' @ lit '':'' @ lit '' '' @ lit ''Another Song'' @ [])
        = Some \<lparr>group0 = [] @ lit ''Failed to download'' @ lit '':'' @ lit '' '' @ lit ''Another Song'' @ [],
                 group1 = Some (lit ''Another Song'')\<rparr>"
    by (rule explicit_search_found[OF _ refl]) (simp_all add: lit_def isspace_def)
  then have "parse_failed_downloads W [[] @ lit ''Failed to download'' @ lit '':'' @ lit '' '' @ lit ''Another Song'' @ []]
        = Inr (if strip (lit ''Another Song'') \<noteq> [] then [strip (lit ''Another Song'')] else [])"
    by (rule parse_single_explicit)
  then show "parse_failed_downloads W [lit ''Failed to download: Another Song''] = Inr [lit ''Another Song'']"
    by (simp add: lit_def strip_def isspace_def)
next
  have "search explicit_failure_pattern ([] @ lit ''Failed to download'' @ lit '':'' @ lit '' '' @ lit ''Song'' @ lit '': Remix Version'')
        = Some \<lparr>group0 = [] @ lit ''Failed to download'' @ lit '':'' @ lit '' '' @ lit ''Song'' @ lit '': Remix Version'',
                 group1 = Some (lit ''Song'')\<rparr>"
    by (rule explicit_search_found[OF _ refl]) (simp_all add: lit_def isspace_def)
  then have "parse_failed_downloads W [[] @ lit ''Failed to download'' @ lit '':'' @ lit '' '' @ lit ''Song'' @ lit '': Remix Version'']
        = Inr (if strip (lit ''Song'') \<noteq> [] then [strip (lit ''Song'')] else [])"
    by (rule parse_single_explicit)
  then show "parse_failed_downloads W [lit ''Failed to download: Song: Remix Version''] = Inr [lit ''Song'']"
    by (simp add: lit_def strip_def isspace_def)
next
  assume a: "(M = lit ''Could not find a match for:'' \<or> M = lit ''Failed to download''
          \<or> M = lit ''Track found but download failed'')
        \<and> (\<forall>c\<in>set pre. c \<noteq> 10)
        \<and> (\<forall>j<length pre. \<not> marker_at (drop j (pre @ M @ lit '':'' @ ws @ body @ 58 # rest)))
        \<and> (\<forall>c\<in>set ws. isspace c)
        \<and> body \<noteq> [] \<and> \<not> isspace (hd body) \<and> (\<forall>c\<in>set body. c \<noteq> 58 \<and> c \<noteq> 10)
        \<and> 10 \<notin> set rest"
  let ?line = "pre @ M @ lit '':'' @ ws @ body @ 58 # rest"
  have "search explicit_failure_pattern ?line = Some \<lparr>group0 = ?line, group1 = Some body\<rparr>"
    by (rule explicit_search_found[OF _ refl]) (use a in auto)
  then have "parse_failed_downloads W [?line] = Inr (if strip body \<noteq> [] then [strip body] else [])"
    by (rule parse_single_explicit)
  moreover have "strip body \<noteq> []"
    using a by (intro strip_nonempty[of "hd body"]) auto
  ultimately show "parse_failed_downloads W [?line] = Inr [strip body]" by simp
qed


theorem explicit_capture_truncated_witness:
  "parse_failed_downloads ascii_alnum_only
     [lit ''! '' @ lit ''Track found but download failed'' @ lit '':'' @ lit ''  '' @ lit ''Song ''
        @ 58 # lit '' Remix'']
   = Inr [strip (lit ''Song '')]"
proof -
  have h: "(lit ''Track found but download failed'' = lit ''Could not find a match for:''
          \<or> lit ''Track found but download failed'' = lit ''Failed to download''
          \<or> lit ''Track found but download failed'' = lit ''Track found but download failed'')
        \<and> (\<forall>c\<in>set (lit ''! ''). c \<noteq> 10)
        \<and> (\<forall>j<length (lit ''! ''). \<not> marker_at (drop j (lit ''! '' @ lit ''Track found but download failed''
                 @ lit '':'' @ lit ''  '' @ lit ''Song '' @ 58 # lit '' Remix'')))
        \<and> (\<forall>c\<in>set (lit ''  ''). isspace c)
        \<and> lit ''Song '' \<noteq> [] \<and> \<not> isspace (hd (lit ''Song ''))
        \<and> (\<forall>c\<in>set (lit ''Song ''). c \<noteq> 58 \<and> c \<noteq> 10)
        \<and> 10 \<notin> set (lit '' Remix'')"
    by (simp add: lit_def isspace_def marker_at_def less_Suc_eq all_conj_distrib)
  from explicit_capture_truncated
    [of ascii_alnum_only "lit ''Track found but download failed''" "lit ''! ''" "lit ''  ''"
        "lit ''Song ''" "lit '' Remix''", THEN conjunct2, THEN conjunct2] h
  show ?thesis by (rule mp)
qed

section \<open>An audio-provider error with a URL in its window\<close>

text \<open>
  Claim C6. Let the line at cursor \<open>i\<close> not match the explicit-failure pattern and contain
  \<open>AudioProviderError:\<close>, and let \<open>j\<close> be the first position among \<open>i\<close> and the next three
  (inside the list) whose line holds a YouTube watch URL, \<open>m\<close> being the match there. Then
  the iteration at \<open>i\<close> adds exactly the record
  \<open>Download failed for YouTube URL: <url> (AudioProviderError)\<close> with that URL and moves the
  cursor to \<open>i + 1\<close>, and the record is in the result. In particular the three lines of the
  specification's example give that one record and nothing else.
\<close>

theorem audio_error_url_record:
  "(i < length ls \<and> search explicit_failure_pattern (ls ! i) = None
      \<and> contains (lit ''AudioProviderError:'') (ls ! i)
      \<and> i \<le> j \<and> j < min (i + 4) (length ls)
      \<and> search (youtube_url_pattern W) (ls ! j) = Some m
      \<and> (\<forall>j'. i \<le> j' \<and> j' < j \<longrightarrow> search (youtube_url_pattern W) (ls ! j') = None)
    \<longrightarrow> scan_lines W ls i acc = scan_lines W ls (i + 1) (insert (url_record (group0 m)) acc)
        \<and> (\<exists>rs. parse_failed_downloads W ls = Inr rs \<and> url_record (group0 m) \<in> set rs))
   \<and> parse_failed_downloads W
        [lit ''ERROR AudioProviderError: something'', lit ''some noise'',
         lit ''https://music.youtube.com/watch?v=abc123XYZ_-'']
      = Inr [lit ''Download failed for YouTube URL: https://music.youtube.com/watch?v=abc123XYZ_- (AudioProviderError)'']"
proof (intro conjI impI)
  assume a: "i < length ls \<and> search explicit_failure_pattern (ls ! i) = None
      \<and> contains (lit ''AudioProviderError:'') (ls ! i)
      \<and> i \<le> j \<and> j < min (i + 4) (length ls)
      \<and> search (youtube_url_pattern W) (ls ! j) = Some m
      \<and> (\<forall>j'. i \<le> j' \<and> j' < j \<longrightarrow> search (youtube_url_pattern W) (ls ! j') = None)"
  then have r: "line_record W ls i = Some (url_record (group0 m))"
    by (intro line_record_url) auto
  from a have i: "i < length ls" by simp
  show "scan_lines W ls i acc = scan_lines W ls (i + 1) (insert (url_record (group0 m)) acc)"
    using scan_lines_step[OF i, of W acc] r by simp
  show "\<exists>rs. parse_failed_downloads W ls = Inr rs \<and> url_record (group0 m) \<in> set rs"
    using i r by (rule parse_member)
next
  let ?t = "lit ''ERROR AudioProviderError: something''"
  let ?n = "lit ''some noise''"
  let ?u = "lit ''https://music.youtube.com/watch?v=abc123XYZ_-''"
  have "parse_failed_downloads W [?t, ?n, ?u] = Inr [url_record ?u]"
    by (simp add: scan_eval example_lines)
  also have "url_record ?u = lit ''Download failed for YouTube URL: https://music.youtube.com/watch?v=abc123XYZ_- (AudioProviderError)''"
    by (simp add: url_record_def lit_def)
  finally show "parse_failed_downloads W [?t, ?n, ?u] = Inr [lit ''Download failed for YouTube URL: https://music.youtube.com/watch?v=abc123XYZ_- (AudioProviderError)'']" .
qed

theorem audio_error_url_record_witness:
  "scan_lines ascii_alnum_only
     [lit ''ERROR AudioProviderError: something'', lit ''some noise'',
      lit ''https://music.youtube.com/watch?v=abc123XYZ_-''] 0 {}
   = scan_lines ascii_alnum_only
     [lit ''ERROR AudioProviderError: something'', lit ''some noise'',
      lit ''https://music.youtube.com/watch?v=abc123XYZ_-''] (0 + 1)
     (insert (url_record (lit ''https://music.youtube.com/watch?v=abc123XYZ_-'')) {})
   \<and> (\<exists>rs. parse_failed_downloads ascii_alnum_only
         [lit ''ERROR AudioProviderError: something'', lit ''some noise'',
          lit ''https://music.youtube.com/watch?v=abc123XYZ_-''] = Inr rs
        \<and> url_record (lit ''https://music.youtube.com/watch?v=abc123XYZ_-'') \<in> set rs)"
proof -
  let ?ls = "[lit ''ERROR AudioProviderError: something'', lit ''some noise'',
              lit ''https://music.youtube.com/watch?v=abc123XYZ_-'']"
  let ?m = "\<lparr>group0 = lit ''https://music.youtube.com/watch?v=abc123XYZ_-'', group1 = None\<rparr>"
  have h: "0 < length ?ls \<and> search explicit_failure_pattern (?ls ! 0) = None
      \<and> contains (lit ''AudioProviderError:'') (?ls ! 0)
      \<and> 0 \<le> (2::nat) \<and> 2 < min (0 + 4) (length ?ls)
      \<and> search (youtube_url_pattern ascii_alnum_only) (?ls ! 2) = Some ?m
      \<and> (\<forall>j'. 0 \<le> j' \<and> j' < 2 \<longrightarrow>
            search (youtube_url_pattern ascii_alnum_only) (?ls ! j') = None)"
    by (simp add: example_lines less_2_cases_iff)
  from audio_error_url_record[of 0 ?ls 2 ascii_alnum_only ?m "{}", THEN conjunct1] h
  have "scan_lines ascii_alnum_only ?ls 0 {}
          = scan_lines ascii_alnum_only ?ls (0 + 1) (insert (url_record (group0 ?m)) {})
        \<and> (\<exists>rs. parse_failed_downloads ascii_alnum_only ?ls = Inr rs
               \<and> url_record (group0 ?m) \<in> set rs)"
    by (rule mp)
  then show ?thesis by (simp only: rx_found.select_convs)
qed

section \<open>An audio-provider error with no URL in its window\<close>

lemma example_noise_no_explicit_match:
  "search explicit_failure_pattern (lit ''noise 1'') = None"
  "search explicit_failure_pattern (lit ''noise 2'') = None"
  "search explicit_failure_pattern (lit ''noise 3'') = None"
  "search explicit_failure_pattern (lit ''noise 4'') = None"
  by (rule explicit_search_none, simp add: lit_def marker_at_def)+

lemma example_noise_no_trigger:
  "\<not> contains (lit ''AudioProviderError:'') (lit ''noise 1'')"
  "\<not> contains (lit ''AudioProviderError:'') (lit ''noise 2'')"
  "\<not> contains (lit ''AudioProviderError:'') (lit ''noise 3'')"
  "\<not> contains (lit ''AudioProviderError:'') (lit ''noise 4'')"
  "search (youtube_url_pattern W) (lit ''noise 1'') = None"
  "search (youtube_url_pattern W) (lit ''noise 2'') = None"
  "search (youtube_url_pattern W) (lit ''noise 3'') = None"
  "search (youtube_url_pattern W) (lit ''noise 4'') = None"
  by (simp_all add: youtube_url_pattern_def lit_def)

lemmas example_far_url_lines = example_noise_no_explicit_match example_noise_no_trigger

text \<open>
  Claim C7. Let the line at cursor \<open>i\<close> not match the explicit-failure pattern and contain
  \<open>AudioProviderError:\<close>, and let no line among it and the next three (as far as the list
  goes) hold a YouTube watch URL. Then the iteration at \<open>i\<close> adds exactly the record
  \<open>Download failed due to AudioProviderError (details in log: '<line>')\<close> quoting that line,
  not a URL record, and moves the cursor to \<open>i + 1\<close>; the record is in the result. In
  particular, when the URL stands on the fifth line after the trigger the result is that
  one generic record.
\<close>

theorem audio_error_generic_record:
  "(i < length ls \<and> search explicit_failure_pattern (ls ! i) = None
      \<and> contains (lit ''AudioProviderError:'') (ls ! i)
      \<and> (\<forall>j. i \<le> j \<and> j < min (i + 4) (length ls) \<longrightarrow>
             search (youtube_url_pattern W) (ls ! j) = None)
    \<longrightarrow> scan_lines W ls i acc = scan_lines W ls (i + 1) (insert (generic_record (ls ! i)) acc)
        \<and> (\<exists>rs. parse_failed_downloads W ls = Inr rs \<and> generic_record (ls ! i) \<in> set rs))
   \<and> parse_failed_downloads W
        [lit ''ERROR AudioProviderError: something'', lit ''noise 1'', lit ''noise 2'',
         lit ''noise 3'', lit ''noise 4'', lit ''https://music.youtube.com/watch?v=abc123XYZ_-'']
      = Inr [lit ''Download failed due to AudioProviderError (details in log: '' @ [39]
               @ lit ''ERROR AudioProviderError: something'' @ [39] @ lit '')'']"
proof (intro conjI impI)
  assume a: "i < length ls \<and> search explicit_failure_pattern (ls ! i) = None
      \<and> contains (lit ''AudioProviderError:'') (ls ! i)
      \<and> (\<forall>j. i \<le> j \<and> j < min (i + 4) (length ls) \<longrightarrow>
             search (youtube_url_pattern W) (ls ! j) = None)"
  then have r: "line_record W ls i = Some (generic_record (ls ! i))"
    by (intro line_record_generic) auto
  from a have i: "i < length ls" by simp
  show "scan_lines W ls i acc = scan_lines W ls (i + 1) (insert (generic_record (ls ! i)) acc)"
    using scan_lines_step[OF i, of W acc] r by simp
  show "\<exists>rs. parse_failed_downloads W ls = Inr rs \<and> generic_record (ls ! i) \<in> set rs"
    using i r by (rule parse_member)
next
  show "parse_failed_downloads W
        [lit ''ERROR AudioProviderError: something'', lit ''noise 1'', lit ''noise 2'',
         lit ''noise 3'', lit ''noise 4'', lit ''https://music.youtube.com/watch?v=abc123XYZ_-'']
      = Inr [lit ''Download failed due to AudioProviderError (details in log: '' @ [39]
               @ lit ''ERROR AudioProviderError: something'' @ [39] @ lit '')'']"
    by (simp add: scan_eval example_lines example_far_url_lines generic_record_def)
qed

theorem audio_error_generic_record_witness:
  "scan_lines ascii_alnum_only
     [lit ''ERROR AudioProviderError: something'', lit ''some noise''] 0 {}
   = scan_lines ascii_alnum_only
     [lit ''ERROR AudioProviderError: something'', lit ''some noise''] (0 + 1)
     (insert (generic_record
        ([lit ''ERROR AudioProviderError: something'', lit ''some noise''] ! 0)) {})
   \<and> (\<exists>rs. parse_failed_downloads ascii_alnum_only
         [lit ''ERROR AudioProviderError: something'', lit ''some noise''] = Inr rs
        \<and> generic_record ([lit ''ERROR AudioProviderError: something'', lit ''some noise''] ! 0)
            \<in> set rs)"
proof -
  let ?ls = "[lit ''ERROR AudioProviderError: something'', lit ''some noise'']"
  have h: "0 < length ?ls \<and> search explicit_failure_pattern (?ls ! 0) = None
      \<and> contains (lit ''AudioProviderError:'') (?ls ! 0)
      \<and> (\<forall>j. 0 \<le> j \<and> j < min (0 + 4) (length ?ls) \<longrightarrow>
             search (youtube_url_pattern ascii_alnum_only) (?ls ! j) = None)"
    by (simp add: example_lines less_Suc_eq all_conj_distrib)
  from audio_error_generic_record[of 0 ?ls ascii_alnum_only "{}", THEN conjunct1] h
  show ?thesis by (rule mp)
qed

section \<open>The lines of a lookahead window are classified on their own\<close>

lemma line_record_trigger:
  assumes "search explicit_failure_pattern (ls ! k) = None"
    and "contains (lit ''AudioProviderError:'') (ls ! k)"
  shows "line_record W ls k =
           Some (case first_url W (take 4 (drop k ls)) of
                   Some u \<Rightarrow> url_record u | None \<Rightarrow> generic_record (ls ! k))"
  using assms by (auto simp: line_record_def split: option.splits dest: first_url_nonempty)

lemma example_empty_capture:
  "search explicit_failure_pattern (lit ''Failed to download:'')
     = Some \<lparr>group0 = lit ''Failed to download:'', group1 = Some []\<rparr>"
proof -
  have e: "lit ''Failed to download:'' = [] @ lit ''Failed to download'' @ lit '':'' @ [] @ [] @ []"
    by (simp add: lit_def)
  show ?thesis unfolding e by (rule explicit_search_found[OF _ refl]) simp_all
qed

lemma example_another_song:
  "search explicit_failure_pattern (lit ''Failed to download: Another Song'')
     = Some \<lparr>group0 = lit ''Failed to download: Another Song'',
              group1 = Some (lit ''Another Song'')\<rparr>"
  "strip (lit ''Another Song'') = lit ''Another Song''"
  "lit ''Another Song'' \<noteq> []"
proof -
  have e: "lit ''Failed to download: Another Song''
           = [] @ lit ''Failed to download'' @ lit '':'' @ lit '' '' @ lit ''Another Song'' @ []"
    by (simp add: lit_def)
  show "search explicit_failure_pattern (lit ''Failed to download: Another Song'')
     = Some \<lparr>group0 = lit ''Failed to download: Another Song'',
              group1 = Some (lit ''Another Song'')\<rparr>"
    unfolding e by (rule explicit_search_found[OF _ refl]) (simp_all add: lit_def isspace_def)
  show "strip (lit ''Another Song'') = lit ''Another Song''" "lit ''Another Song'' \<noteq> []"
    by (simp_all add: lit_def strip_def isspace_def)
qed

text \<open>
  Claim C8, as amended. Let the line at cursor \<open>i\<close> not match the explicit-failure pattern
  and contain \<open>AudioProviderError:\<close>, and let \<open>k\<close> be one of the next three positions. The
  iteration at \<open>i\<close> adds the record of line \<open>i\<close> and moves the cursor to \<open>i + 1\<close>, and line
  \<open>k\<close> is classified on its own later: if it matches the explicit-failure pattern with a
  capture that is not empty after trimming, the trimmed capture is in the result; if it
  does not match the pattern and contains \<open>AudioProviderError:\<close>, its own record (the URL
  record of the first URL in its own window, or else its generic record) is in the result.
\<close>

theorem lookahead_lines_classified:
  "i < k \<and> k \<le> i + 3 \<and> k < length ls
     \<and> search explicit_failure_pattern (ls ! i) = None
     \<and> contains (lit ''AudioProviderError:'') (ls ! i)
   \<longrightarrow> scan_lines W ls i acc
         = scan_lines W ls (i + 1)
             (insert (case first_url W (take 4 (drop i ls)) of
                        Some u \<Rightarrow> url_record u | None \<Rightarrow> generic_record (ls ! i)) acc)
       \<and> (\<exists>rs. parse_failed_downloads W ls = Inr rs
            \<and> (\<forall>m c. search explicit_failure_pattern (ls ! k) = Some m \<and> group1 m = Some c
                      \<and> strip c \<noteq> []
                    \<longrightarrow> strip c \<in> set rs)
            \<and> (search explicit_failure_pattern (ls ! k) = None
                  \<and> contains (lit ''AudioProviderError:'') (ls ! k)
                \<longrightarrow> (case first_url W (take 4 (drop k ls)) of
                       Some u \<Rightarrow> url_record u | None \<Rightarrow> generic_record (ls ! k)) \<in> set rs))"
proof (intro impI conjI)
  assume a: "i < k \<and> k \<le> i + 3 \<and> k < length ls
     \<and> search explicit_failure_pattern (ls ! i) = None
     \<and> contains (lit ''AudioProviderError:'') (ls ! i)"
  then have i: "i < length ls" and k: "k < length ls" by simp_all
  from a have "line_record W ls i =
           Some (case first_url W (take 4 (drop i ls)) of
                   Some u \<Rightarrow> url_record u | None \<Rightarrow> generic_record (ls ! i))"
    by (intro line_record_trigger) simp_all
  with scan_lines_step[OF i, of W acc]
  show "scan_lines W ls i acc
         = scan_lines W ls (i + 1)
             (insert (case first_url W (take 4 (drop i ls)) of
                        Some u \<Rightarrow> url_record u | None \<Rightarrow> generic_record (ls ! i)) acc)"
    by simp
  have s: "set (sorted_list_of_set (all_records W ls)) = all_records W ls"
    by (simp add: finite_all_records)
  have 1: "\<forall>m c. search explicit_failure_pattern (ls ! k) = Some m \<and> group1 m = Some c
                      \<and> strip c \<noteq> []
                    \<longrightarrow> strip c \<in> all_records W ls"
  proof (intro allI impI)
    fix m c
    assume "search explicit_failure_pattern (ls ! k) = Some m \<and> group1 m = Some c \<and> strip c \<noteq> []"
    then have "line_record W ls k = Some (strip c)" by (intro line_record_capture) auto
    with k show "strip c \<in> all_records W ls" by (rule line_record_member)
  qed
  have 2: "search explicit_failure_pattern (ls ! k) = None
                  \<and> contains (lit ''AudioProviderError:'') (ls ! k)
                \<longrightarrow> (case first_url W (take 4 (drop k ls)) of
                       Some u \<Rightarrow> url_record u | None \<Rightarrow> generic_record (ls ! k))
                    \<in> all_records W ls"
  proof
    assume "search explicit_failure_pattern (ls ! k) = None
                  \<and> contains (lit ''AudioProviderError:'') (ls ! k)"
    then have "line_record W ls k =
           Some (case first_url W (take 4 (drop k ls)) of
                   Some u \<Rightarrow> url_record u | None \<Rightarrow> generic_record (ls ! k))"
      by (intro line_record_trigger) simp_all
    with k show "(case first_url W (take 4 (drop k ls)) of
                       Some u \<Rightarrow> url_record u | None \<Rightarrow> generic_record (ls ! k))
                    \<in> all_records W ls" by (rule line_record_member)
  qed
  show "\<exists>rs. parse_failed_downloads W ls = Inr rs
            \<and> (\<forall>m c. search explicit_failure_pattern (ls ! k) = Some m \<and> group1 m = Some c
                      \<and> strip c \<noteq> []
                    \<longrightarrow> strip c \<in> set rs)
            \<and> (search explicit_failure_pattern (ls ! k) = None
                  \<and> contains (lit ''AudioProviderError:'') (ls ! k)
                \<longrightarrow> (case first_url W (take 4 (drop k ls)) of
                       Some u \<Rightarrow> url_record u | None \<Rightarrow> generic_record (ls ! k)) \<in> set rs)"
    using 1 2 by (intro exI[of _ "sorted_list_of_set (all_records W ls)"]) (simp only: parse_eq s simp_thms)
qed

text \<open>
  Claim C8 as stated fails for a line in the window that matches the explicit-failure
  pattern with an empty capture: the line \<open>Failed to download:\<close> after a trigger matches
  the pattern, and the result holds the record of the trigger only.
\<close>

theorem lookahead_line_without_record:
  "search explicit_failure_pattern (lit ''ERROR AudioProviderError: something'') = None
   \<and> contains (lit ''AudioProviderError:'') (lit ''ERROR AudioProviderError: something'')
   \<and> search explicit_failure_pattern (lit ''Failed to download:'')
       = Some \<lparr>group0 = lit ''Failed to download:'', group1 = Some []\<rparr>
   \<and> parse_failed_downloads ascii_alnum_only
        [lit ''ERROR AudioProviderError: something'', lit ''Failed to download:'']
       = Inr [generic_record (lit ''ERROR AudioProviderError: something'')]"
proof (intro conjI)
  have u: "search (youtube_url_pattern ascii_alnum_only) (lit ''Failed to download:'') = None"
    by (simp add: youtube_url_pattern_def lit_def)
  show "parse_failed_downloads ascii_alnum_only
        [lit ''ERROR AudioProviderError: something'', lit ''Failed to download:'']
       = Inr [generic_record (lit ''ERROR AudioProviderError: something'')]"
    by (simp add: scan_eval example_lines example_empty_capture u strip_def)
qed (simp_all add: example_lines example_empty_capture)


theorem lookahead_lines_classified_witness:
  "scan_lines ascii_alnum_only
     [lit ''ERROR AudioProviderError: something'', lit ''Failed to download: Another Song''] 0 {}
   = scan_lines ascii_alnum_only
     [lit ''ERROR AudioProviderError: something'', lit ''Failed to download: Another Song'']
     (0 + 1)
     (insert (case first_url ascii_alnum_only
                     (take 4 (drop 0 [lit ''ERROR AudioProviderError: something'',
                                      lit ''Failed to download: Another Song''])) of
                Some u \<Rightarrow> url_record u
              | None \<Rightarrow> generic_record
                         ([lit ''ERROR AudioProviderError: something'',
                           lit ''Failed to download: Another Song''] ! 0)) {})
   \<and> (\<exists>rs. parse_failed_downloads ascii_alnum_only
              [lit ''ERROR AudioProviderError: something'',
               lit ''Failed to download: Another Song''] = Inr rs
        \<and> strip (lit ''Another Song'') \<in> set rs)"
proof -
  let ?ls = "[lit ''ERROR AudioProviderError: something'', lit ''Failed to download: Another Song'']"
  let ?m = "\<lparr>group0 = lit ''Failed to download: Another Song'',
              group1 = Some (lit ''Another Song'')\<rparr>"
  have h: "0 < (1::nat) \<and> (1::nat) \<le> 0 + 3 \<and> 1 < length ?ls
     \<and> search explicit_failure_pattern (?ls ! 0) = None
     \<and> contains (lit ''AudioProviderError:'') (?ls ! 0)"
    by (simp add: example_lines)
  have e: "search explicit_failure_pattern (?ls ! 1) = Some ?m \<and> group1 ?m = Some (lit ''Another Song'')
           \<and> strip (lit ''Another Song'') \<noteq> []"
    by (simp add: example_another_song)
  from lookahead_lines_classified[of 0 1 ?ls ascii_alnum_only "{}"] h
  have c: "scan_lines ascii_alnum_only ?ls 0 {}
         = scan_lines ascii_alnum_only ?ls (0 + 1)
             (insert (case first_url ascii_alnum_only (take 4 (drop 0 ?ls)) of
                        Some u \<Rightarrow> url_record u | None \<Rightarrow> generic_record (?ls ! 0)) {})
       \<and> (\<exists>rs. parse_failed_downloads ascii_alnum_only ?ls = Inr rs
            \<and> (\<forall>m c. search explicit_failure_pattern (?ls ! 1) = Some m \<and> group1 m = Some c
                      \<and> strip c \<noteq> []
                    \<longrightarrow> strip c \<in> set rs)
            \<and> (search explicit_failure_pattern (?ls ! 1) = None
                  \<and> contains (lit ''AudioProviderError:'') (?ls ! 1)
                \<longrightarrow> (case first_url ascii_alnum_only (take 4 (drop 1 ?ls)) of
                       Some u \<Rightarrow> url_record u | None \<Rightarrow> generic_record (?ls ! 1)) \<in> set rs))"
    by (rule mp)
  then obtain rs where rs: "parse_failed_downloads ascii_alnum_only ?ls = Inr rs"
    and a: "\<forall>m c. search explicit_failure_pattern (?ls ! 1) = Some m \<and> group1 m = Some c
                      \<and> strip c \<noteq> []
                    \<longrightarrow> strip c \<in> set rs"
    by blast
  from a e have "strip (lit ''Another Song'') \<in> set rs" by blast
  with rs have "\<exists>rs. parse_failed_downloads ascii_alnum_only ?ls = Inr rs
        \<and> strip (lit ''Another Song'') \<in> set rs" by blast
  with c show ?thesis by blast
qed

section \<open>The two copies of the classifier\<close>

lemma gui_patterns:
  "gui_explicit_failure_pattern = explicit_failure_pattern"
  "gui_youtube_url_pattern W = youtube_url_pattern W"
  by (simp_all only: gui_explicit_failure_pattern_def explicit_failure_pattern_def
        gui_youtube_url_pattern_def youtube_url_pattern_def)

lemma gui_url_scan_eq: "gui_url_scan W ls j hi = url_scan W ls j hi"
proof (induction W ls j hi rule: url_scan.induct)
  case (1 W ls j hi)
  show ?case
    by (subst gui_url_scan.simps, subst url_scan.simps)
       (use 1 in \<open>auto simp: gui_patterns split: sum.splits option.splits\<close>)
qed

lemma gui_scan_lines_eq: "gui_scan_lines W ls i acc = scan_lines W ls i acc"
proof (induction W ls i acc rule: scan_lines.induct)
  case (1 W ls i acc)
  show ?case
    by (subst gui_scan_lines.simps, subst scan_lines.simps)
       (use 1 in \<open>auto simp: gui_patterns gui_url_scan_eq split: sum.splits option.splits\<close>)
qed

text \<open>
  Claim C9. \<open>parse_failed_downloads\<close> of the terminal front-end and
  \<open>_parse_failed_downloads\<close> of the GUI front-end return the same result on every list of
  lines: their patterns are the same, and their loops take the same branch at every step.
\<close>

theorem gui_copy_same_function:
  "gui_parse_failed_downloads uni_alnum output_lines
     = parse_failed_downloads uni_alnum output_lines"
  by (simp add: gui_parse_failed_downloads_def parse_failed_downloads_def gui_scan_lines_eq)

theorem gui_copy_same_function_witness:
  "gui_parse_failed_downloads ascii_alnum_only
     [lit ''ERROR AudioProviderError: something'', lit ''some noise'',
      lit ''https://music.youtube.com/watch?v=abc123XYZ_-'']
   = Inr [url_record (lit ''https://music.youtube.com/watch?v=abc123XYZ_-'')]"
proof -
  have "parse_failed_downloads ascii_alnum_only
     [lit ''ERROR AudioProviderError: something'', lit ''some noise'',
      lit ''https://music.youtube.com/watch?v=abc123XYZ_-'']
   = Inr [url_record (lit ''https://music.youtube.com/watch?v=abc123XYZ_-'')]"
    by (simp add: scan_eval example_lines)
  with gui_copy_same_function show ?thesis by (rule trans)
qed

section \<open>An explicit match with an empty capture\<close>

lemma example_marker_without_colon:
  "search explicit_failure_pattern (lit ''ERROR AudioProviderError: Failed to download'') = None"
  "contains (lit ''AudioProviderError:'') (lit ''ERROR AudioProviderError: Failed to download'')"
  "search (youtube_url_pattern W) (lit ''ERROR AudioProviderError: Failed to download'') = None"
    apply (rule explicit_search_none, simp add: lit_def marker_at_def)
   apply (simp add: lit_def)
  apply (simp add: youtube_url_pattern_def lit_def)
  done

text \<open>
  Claim C10. When the explicit-failure pattern matches the line at cursor \<open>i\<close> and the
  captured text is empty after trimming, the iteration adds nothing and moves the cursor
  to \<open>i + 1\<close>: the set of records is unchanged, whatever else the line holds. A line that
  ends exactly in a marker and its colon is such a line, also when \<open>AudioProviderError:\<close>
  stands before the marker: the line \<open>ERROR AudioProviderError: Failed to download:\<close>
  gives no record, while the same line without the final colon, which the pattern does not
  match, gives the generic audio-provider record.
\<close>

theorem empty_capture_consumes_line:
  "(i < length ls \<and> search explicit_failure_pattern (ls ! i) = Some m
      \<and> group1 m = Some c \<and> strip c = []
    \<longrightarrow> scan_lines W ls i acc = scan_lines W ls (i + 1) acc)
   \<and> ((M = lit ''Could not find a match for:'' \<or> M = lit ''Failed to download''
          \<or> M = lit ''Track found but download failed'')
        \<and> (\<forall>c\<in>set pre. c \<noteq> 10)
        \<and> (\<forall>j<length pre. \<not> marker_at (drop j (pre @ M @ lit '':'')))
      \<longrightarrow> parse_failed_downloads W [pre @ M @ lit '':''] = Inr [])
   \<and> contains (lit ''AudioProviderError:'') (lit ''ERROR AudioProviderError: Failed to download:'')
   \<and> parse_failed_downloads W [lit ''ERROR AudioProviderError: Failed to download:''] = Inr []
   \<and> parse_failed_downloads W [lit ''ERROR AudioProviderError: Failed to download'']
       = Inr [generic_record (lit ''ERROR AudioProviderError: Failed to download'')]"
proof (intro conjI impI)
  assume a: "i < length ls \<and> search explicit_failure_pattern (ls ! i) = Some m
      \<and> group1 m = Some c \<and> strip c = []"
  then have "line_record W ls i = None" by (intro line_record_empty_capture) auto
  with a show "scan_lines W ls i acc = scan_lines W ls (i + 1) acc"
    by (simp add: scan_lines_step)
next
  assume a: "(M = lit ''Could not find a match for:'' \<or> M = lit ''Failed to download''
          \<or> M = lit ''Track found but download failed'')
        \<and> (\<forall>c\<in>set pre. c \<noteq> 10)
        \<and> (\<forall>j<length pre. \<not> marker_at (drop j (pre @ M @ lit '':'')))"
  let ?line = "pre @ M @ lit '':'' @ [] @ [] @ []"
  have "search explicit_failure_pattern ?line = Some \<lparr>group0 = ?line, group1 = Some []\<rparr>"
    by (rule explicit_search_found[OF _ refl]) (use a in auto)
  then have "parse_failed_downloads W [?line] = Inr (if strip [] \<noteq> [] then [strip []] else [])"
    by (rule parse_single_explicit)
  then show "parse_failed_downloads W [pre @ M @ lit '':''] = Inr []"
    by (simp add: strip_def)
next
  show "contains (lit ''AudioProviderError:'') (lit ''ERROR AudioProviderError: Failed to download:'')"
    by (simp add: lit_def)
next
  let ?line = "lit ''ERROR AudioProviderError: '' @ lit ''Failed to download'' @ lit '':'' @ [] @ [] @ []"
  have "search explicit_failure_pattern ?line = Some \<lparr>group0 = ?line, group1 = Some []\<rparr>"
    by (rule explicit_search_found[OF _ refl])
       (simp_all add: lit_def marker_at_def less_Suc_eq all_conj_distrib)
  then have "parse_failed_downloads W [?line] = Inr (if strip [] \<noteq> [] then [strip []] else [])"
    by (rule parse_single_explicit)
  then show "parse_failed_downloads W [lit ''ERROR AudioProviderError: Failed to download:''] = Inr []"
    by (simp add: strip_def lit_def)
next
  show "parse_failed_downloads W [lit ''ERROR AudioProviderError: Failed to download'']
       = Inr [generic_record (lit ''ERROR AudioProviderError: Failed to download'')]"
    by (simp add: parse_single line_record_def example_marker_without_colon)
qed

theorem empty_capture_consumes_line_witness:
  "scan_lines ascii_alnum_only [lit ''noise'', [] @ lit ''Failed to download'' @ lit '':'' @ lit '' '' @ [] @ []] 1 {}
   = scan_lines ascii_alnum_only [lit ''noise'', [] @ lit ''Failed to download'' @ lit '':'' @ lit '' '' @ [] @ []] (1 + 1) {}"
proof -
  let ?l = "[] @ lit ''Failed to download'' @ lit '':'' @ lit '' '' @ [] @ []"
  let ?m = "\<lparr>group0 = ?l, group1 = Some []\<rparr>"
  have "search explicit_failure_pattern ?l = Some ?m"
    by (rule explicit_search_found[OF _ refl]) (simp_all add: lit_def isspace_def)
  then have h: "1 < length [lit ''noise'', ?l]
      \<and> search explicit_failure_pattern ([lit ''noise'', ?l] ! 1) = Some ?m
      \<and> group1 ?m = Some [] \<and> strip [] = []"
    by (simp add: strip_def)
  from empty_capture_consumes_line
    [of 1 "[lit ''noise'', ?l]" ?m "[]" ascii_alnum_only "{}", THEN conjunct1] h
  show ?thesis by (rule mp)
qed

end
